theory Spec2Isabelle
  imports Complex_Main "HOL-Library.Product_Lexorder" "HOL-Library.Multiset" "HOL-Library.Sublist"
begin

section \<open>Telemetry tables\<close>

text \<open>
  The two programs work on pandas data frames. A frame is modelled as the list of its
  rows, a row as a record with one field per column. Timestamps (\<open>datetime64[ns]\<close>)
  are integers counting nanoseconds, taken unbounded. SOC and odometer readings are
  \<open>float64\<close> numbers in the source and real numbers here. The missing value \<open>NaN\<close> that
  pandas itself produces (\<open>shift\<close>, \<open>diff\<close>, the standard deviation of a single value) is
  \<open>None\<close>. Battery identifiers are of any type; \<open>groupby\<close> needs them linearly ordered.

  In \<open>cycles.py\<close> the result of a subtraction, of the division by 100 and of \<open>round\<close> is
  rounded to the nearest \<open>float64\<close> (see \<open>float64\<close> below); the sum of a column is
  taken exact. In \<open>pp.py\<close> all arithmetic is exact.

  \<open>df.sort_values("ts")\<close> in \<open>cycles.py\<close> sorts on one column with pandas' default
  quicksort, which promises no order among rows with equal timestamps; it is a parameter
  \<open>sort_values\<close> of the model, of which only \<open>sorts_by_ts\<close> is known.
  \<open>df.sort_values(["battery_id", "ts"])\<close> in \<open>pp.py\<close> sorts on two columns, which pandas
  does with a stable sort: it is \<^const>\<open>sort_key\<close>.
\<close>

record 'b keyed =
  battery_id :: 'b

record 'b stamped = "'b keyed" +
  ts :: int

text \<open>A row of the frame returned by \<open>load_soc_data\<close> in \<open>cycles.py\<close>.\<close>

record 'b telemetry = "'b stamped" +
  battery_soc_pct :: real

text \<open>A row of the result frame of \<open>compute_all_cycles\<close>.\<close>

record 'b cycle_row = "'b keyed" +
  cycles_last_24h :: real
  cycles_last_7d :: real
  cycles_last_30d :: real
  total_cycles :: real

text \<open>A row of the frame returned by \<open>load_2h_data\<close> in \<open>pp.py\<close>, and the same row
  once \<open>detect_anomalies\<close> has added the column \<open>soc_drop\<close>.\<close>

record 'b bucket = "'b stamped" +
  odo :: real
  soc :: real

record 'b bucket_drop = "'b bucket" +
  soc_drop :: "real option"

section \<open>\<open>float64\<close> arithmetic\<close>

text \<open>\<open>rint\<close>: the nearest integer, a tie going to the even one.\<close>

definition rint :: "real \<Rightarrow> int" where
  "rint x = (let f = \<lfloor>x\<rfloor>; d = x - of_int f in
     if d < 1/2 then f else if 1/2 < d then f + 1 else if even f then f else f + 1)"

text \<open>The \<open>float64\<close> numbers near \<open>x\<close> are the multiples of \<open>2 ^ ulp_exp x\<close>: 53 significant
  bits, exponents from \<open>-1074\<close> on. \<open>float64 x\<close> is the nearest of them, a tie going to the
  even multiple: the result that IEEE 754 arithmetic returns for an operation whose exact
  result is \<open>x\<close> (below the overflow threshold).\<close>

definition ulp_exp :: "real \<Rightarrow> int" where
  "ulp_exp x = max (\<lfloor>log 2 \<bar>x\<bar>\<rfloor> - 52) (- 1074)"

definition float64 :: "real \<Rightarrow> real" where
  "float64 x = (if x = 0 then 0 else of_int (rint (x / 2 powr ulp_exp x)) * 2 powr ulp_exp x)"

text \<open>\<open>round(x, 3)\<close> on a \<open>numpy.float64\<close>: multiply by 1000, \<open>rint\<close>, divide by 1000.
  On the integer 0 of the \<open>else 0\<close> branches \<open>round\<close> returns 0, which this gives too.\<close>

definition np_round3 :: "real \<Rightarrow> real" where
  "np_round3 x = float64 (of_int (rint (float64 (x * 1000))) / 1000)"

section \<open>Arithmetic with missing values\<close>

text \<open>Subtraction, multiplication and comparison of two cells: a missing operand gives a
  missing result, and every comparison with a missing value is false.\<close>

definition nan_sub :: "real option \<Rightarrow> real option \<Rightarrow> real option" where
  "nan_sub a b = (case (a, b) of (Some x, Some y) \<Rightarrow> Some (x - y) | _ \<Rightarrow> None)"

definition nan_fsub :: "real option \<Rightarrow> real option \<Rightarrow> real option" where
  "nan_fsub a b = (case (a, b) of (Some x, Some y) \<Rightarrow> Some (float64 (x - y)) | _ \<Rightarrow> None)"

definition nan_mul :: "real option \<Rightarrow> real option \<Rightarrow> real option" where
  "nan_mul a b = (case (a, b) of (Some x, Some y) \<Rightarrow> Some (x * y) | _ \<Rightarrow> None)"

definition nan_lt :: "real option \<Rightarrow> real option \<Rightarrow> bool" where
  "nan_lt a b = (case (a, b) of (Some x, Some y) \<Rightarrow> x < y | _ \<Rightarrow> False)"

text \<open>\<open>Series.shift(1)\<close>: every value moves one position down, the first cell is missing
  and the last value falls off.\<close>

definition shift1 :: "'a list \<Rightarrow> 'a option list" where
  "shift1 xs = (case xs of [] \<Rightarrow> [] | _ # _ \<Rightarrow> None # map Some (butlast xs))"

text \<open>\<open>Series.clip(lower=l)\<close> leaves a missing cell missing.\<close>

definition clip_lower :: "real \<Rightarrow> real option \<Rightarrow> real option" where
  "clip_lower l a = map_option (max l) a"

text \<open>\<open>Series.dropna()\<close>, and \<open>Series.sum()\<close>, which skips missing cells and is 0 on
  an empty series.\<close>

fun dropna :: "'a option list \<Rightarrow> 'a list" where
  "dropna [] = []"
| "dropna (None # xs) = dropna xs"
| "dropna (Some x # xs) = x # dropna xs"

definition nansum :: "real option list \<Rightarrow> real" where
  "nansum xs = sum_list (dropna xs)"

text \<open>\<open>Series.max()\<close> of a timestamp column; on an empty column pandas gives \<open>NaT\<close>.\<close>

definition ts_max :: "int list \<Rightarrow> int option" where
  "ts_max xs = (case xs of [] \<Rightarrow> None | x # ys \<Rightarrow> Some (fold max ys x))"

text \<open>\<open>Series.unique()\<close> keeps the values in the order of their first appearance.\<close>

fun unique :: "'a list \<Rightarrow> 'a list" where
  "unique [] = []"
| "unique (x # xs) = x # unique (filter (\<lambda>y. y \<noteq> x) xs)"

section \<open>Equivalent full cycles (\<open>cycles.py\<close>)\<close>

text \<open>What is known of \<open>df.sort_values("ts")\<close>: the result has the rows of the frame, in
  ascending order of \<open>ts\<close>.\<close>

definition sorts_by_ts :: "('b telemetry list \<Rightarrow> 'b telemetry list) \<Rightarrow> bool" where
  "sorts_by_ts sort_values \<longleftrightarrow>
     (\<forall>df. mset (sort_values df) = mset df \<and> sorted (map ts (sort_values df)))"

definition calculate_cycles ::
  "('b telemetry list \<Rightarrow> 'b telemetry list) \<Rightarrow> 'b telemetry list \<Rightarrow> real" where
  "calculate_cycles sort_values df0 =
     (let df = sort_values df0;
          battery_soc = map battery_soc_pct df;
          prev_soc = shift1 battery_soc;
          drop = map (clip_lower 0) (map2 nan_fsub prev_soc (map Some battery_soc))
      in float64 (nansum drop / 100))"

text \<open>The three \<open>pd.Timedelta\<close> values, in nanoseconds.\<close>

definition hours_24 :: int where "hours_24 = 24 * 3600 * 1000000000"
definition days_7 :: int where "days_7 = 7 * 24 * 3600 * 1000000000"
definition days_30 :: int where "days_30 = 30 * 24 * 3600 * 1000000000"

text \<open>\<open>bdf[bdf["ts"] >= (bdf["ts"].max() - w)]\<close>\<close>

definition window :: "int \<Rightarrow> 'b telemetry list \<Rightarrow> 'b telemetry list" where
  "window w bdf =
     filter (\<lambda>r. case ts_max (map ts bdf) of None \<Rightarrow> False | Some m \<Rightarrow> m - w \<le> ts r) bdf"

text \<open>The body of the loop over \<open>unique_batteries\<close>.\<close>

definition battery_cycles ::
  "('b telemetry list \<Rightarrow> 'b telemetry list) \<Rightarrow> 'b telemetry list \<Rightarrow> 'b \<Rightarrow> 'b cycle_row" where
  "battery_cycles sort_values df battery =
     (let bdf = filter (\<lambda>r. battery_id r = battery) df;
          df_24h = window hours_24 bdf;
          cycles_24h = (if length df_24h > 1 then calculate_cycles sort_values df_24h else 0);
          df_7d = window days_7 bdf;
          cycles_7d = (if length df_7d > 1 then calculate_cycles sort_values df_7d else 0);
          df_30d = window days_30 bdf;
          cycles_30d = (if length df_30d > 1 then calculate_cycles sort_values df_30d else 0);
          total = calculate_cycles sort_values bdf
      in \<lparr>battery_id = battery,
          cycles_last_24h = np_round3 cycles_24h,
          cycles_last_7d = np_round3 cycles_7d,
          cycles_last_30d = np_round3 cycles_30d,
          total_cycles = np_round3 total\<rparr>)"

definition compute_all_cycles ::
  "('b telemetry list \<Rightarrow> 'b telemetry list) \<Rightarrow> 'b telemetry list \<Rightarrow> 'b cycle_row list" where
  "compute_all_cycles sort_values df =
     map (battery_cycles sort_values df) (unique (map battery_id df))"

section \<open>Hybrid anomaly detection (\<open>pp.py\<close>)\<close>

text \<open>\<open>df.groupby("battery_id")["soc"].diff()\<close>: in every row, the SOC of the row minus
  the SOC of the previous row of the same battery, missing in the first row of each
  battery. The map \<open>prev\<close> holds the last SOC seen for each battery.\<close>

fun groupby_diff :: "('b \<rightharpoonup> real) \<Rightarrow> 'b bucket list \<Rightarrow> real option list" where
  "groupby_diff prev [] = []"
| "groupby_diff prev (r # rs) =
     nan_sub (Some (soc r)) (prev (battery_id r)) # groupby_diff (prev(battery_id r \<mapsto> soc r)) rs"

text \<open>\<open>df["soc_drop"] = ...\<close>: the new column, row by row.\<close>

definition add_soc_drop :: "'b bucket \<Rightarrow> real option \<Rightarrow> 'b bucket_drop" where
  "add_soc_drop r d =
     \<lparr>battery_id = battery_id r, ts = ts r, odo = odo r, soc = soc r, soc_drop = d\<rparr>"

text \<open>\<open>Series.mean()\<close>, and \<open>Series.std()\<close>, the sample standard deviation (\<open>ddof=1\<close>),
  which is missing for fewer than two values.\<close>

definition mean :: "real list \<Rightarrow> real" where
  "mean xs = sum_list xs / real (length xs)"

definition std :: "real list \<Rightarrow> real option" where
  "std xs =
     (if length xs \<le> 1 then None
      else Some (sqrt (sum_list (map (\<lambda>x. (x - mean xs)\<^sup>2) xs) / real (length xs - 1))))"

text \<open>The body of the loop over the groups: \<open>b\<close> is the battery and \<open>g\<close> its rows.\<close>

definition group_anomalies ::
  "'b \<Rightarrow> 'b bucket_drop list \<Rightarrow> 'b \<times> 'b bucket_drop list \<times> 'b bucket_drop list" where
  "group_anomalies b g =
     (let drops = dropna (map soc_drop g) in
      if length drops = 0 then (b, g, [])
      else
        let mean_d = mean drops;
            std_d = std drops;
            threshold = nan_sub (Some mean_d) (nan_mul (Some 1.5) std_d);
            g_anom = filter (\<lambda>r. nan_lt (soc_drop r) (Some (- 15)) \<or>
                                  nan_lt (soc_drop r) threshold) g
        in (b, g, g_anom))"

text \<open>\<open>groupby\<close> visits the batteries in ascending order of their identifier, each with
  its rows in the order of the frame.\<close>

definition detect_anomalies ::
  "('b::linorder) bucket list \<Rightarrow> ('b \<times> 'b bucket_drop list \<times> 'b bucket_drop list) list" where
  "detect_anomalies df0 =
     (let sorted_df = sort_key (\<lambda>r. (battery_id r, ts r)) df0;
          df = map2 add_soc_drop sorted_df (groupby_diff Map.empty sorted_df)
      in map (\<lambda>b. group_anomalies b (filter (\<lambda>r. battery_id r = b) df))
           (sort (remdups (map battery_id df))))"

section \<open>The wording of a cycle count\<close>

text \<open>The samples of one battery that the specification keeps for a window \<open>W\<close>: those with
  \<open>timestamp \<ge> max(timestamp) - W\<close>; the all-time window (\<open>None\<close>) keeps them all.\<close>

definition restricted :: "int option \<Rightarrow> 'b telemetry list \<Rightarrow> 'b telemetry list" where
  "restricted W bdf =
     (case W of None \<Rightarrow> bdf
      | Some w \<Rightarrow> filter (\<lambda>r. Max (ts ` set bdf) - w \<le> ts r) bdf)"

text \<open>The cycle count as the specification words it, in exact arithmetic: sort by
  timestamp, add up \<open>max(0, soc[i-1] - soc[i])\<close> over consecutive samples, divide by 100,
  round to three decimal places (a tie going to the even digit; for the count of
  \<open>exact_example\<close> below a tie going up gives the same).\<close>

definition round3 :: "real \<Rightarrow> real" where
  "round3 x = of_int (rint (x * 1000)) / 1000"

definition efc :: "'b telemetry list \<Rightarrow> real" where
  "efc sub =
     (let s = map battery_soc_pct (sort_key ts sub)
      in round3 ((\<Sum>i = 1..<length s. max 0 (s ! (i - 1) - s ! i)) / 100))"

text \<open>The same count in the arithmetic of the program, over the samples in the order in
  which \<open>sort_values\<close> returns them.\<close>

definition efc_float64 ::
  "('b telemetry list \<Rightarrow> 'b telemetry list) \<Rightarrow> 'b telemetry list \<Rightarrow> real" where
  "efc_float64 sort_values sub =
     (let s = map battery_soc_pct (sort_values sub)
      in np_round3 (float64 ((\<Sum>i = 1..<length s. max 0 (float64 (s ! (i - 1) - s ! i))) / 100)))"

section \<open>Auxiliary functions\<close>

text \<open>The total discharge along a series of SOC values: the sum of the drops between
  neighbours as \<open>cycles.py\<close> computes them, a rise counting as 0.\<close>

fun discharge :: "real list \<Rightarrow> real" where
  "discharge (x # y # zs) = max 0 (float64 (x - y)) + discharge (y # zs)"
| "discharge _ = 0"

text \<open>\<open>Series.diff()\<close> on the SOC values of a single battery, \<open>p\<close> being the value before
  the first one: each value minus its predecessor.\<close>

fun diff_from :: "real option \<Rightarrow> real list \<Rightarrow> real option list" where
  "diff_from p [] = []"
| "diff_from p (x # xs) = nan_sub (Some x) p # diff_from (Some x) xs"

text \<open>The rows of battery \<open>b\<close> as \<open>detect_anomalies\<close> hands them to the loop body: the
  buckets of the battery in timestamp order, each with its \<open>soc_drop\<close>.\<close>

definition group_rows :: "('b::linorder) bucket list \<Rightarrow> 'b \<Rightarrow> 'b bucket_drop list" where
  "group_rows df b =
     (let series = sort_key ts (filter (\<lambda>r. battery_id r = b) df)
      in map2 add_soc_drop series (diff_from None (map soc series)))"

section \<open>Example data\<close>

text \<open>Three batteries: battery 7 with five samples over forty days, battery 3 with a single
  sample, battery 9 with two samples two days apart.\<close>

definition fleet_log :: "nat telemetry list" where
  "fleet_log =
     [\<lparr>battery_id = 7, ts = 3456000000000000, battery_soc_pct = 60.5\<rparr>,
      \<lparr>battery_id = 3, ts = 432000000000000, battery_soc_pct = 50\<rparr>,
      \<lparr>battery_id = 7, ts = 0, battery_soc_pct = 100\<rparr>,
      \<lparr>battery_id = 9, ts = 172800000000000, battery_soc_pct = 60\<rparr>,
      \<lparr>battery_id = 7, ts = 3024000000000000, battery_soc_pct = 95\<rparr>,
      \<lparr>battery_id = 7, ts = 1728000000000000, battery_soc_pct = 90\<rparr>,
      \<lparr>battery_id = 9, ts = 0, battery_soc_pct = 80\<rparr>,
      \<lparr>battery_id = 7, ts = 3412800000000000, battery_soc_pct = 70\<rparr>]"

text \<open>The rows of \<open>compute_all_cycles\<close> on \<open>fleet_log\<close>: the \<open>float64\<close> numbers nearest to
  0.095, 0.345, 0.445 and 0.2.\<close>

definition battery_7_counts :: "nat cycle_row" where
  "battery_7_counts =
     \<lparr>battery_id = 7, cycles_last_24h = float64 (95 / 1000),
      cycles_last_7d = float64 (345 / 1000), cycles_last_30d = float64 (345 / 1000),
      total_cycles = float64 (445 / 1000)\<rparr>"

definition battery_3_counts :: "nat cycle_row" where
  "battery_3_counts =
     \<lparr>battery_id = 3, cycles_last_24h = 0, cycles_last_7d = 0,
      cycles_last_30d = 0, total_cycles = 0\<rparr>"

definition battery_9_counts :: "nat cycle_row" where
  "battery_9_counts =
     \<lparr>battery_id = 9, cycles_last_24h = 0, cycles_last_7d = float64 (200 / 1000),
      cycles_last_30d = float64 (200 / 1000), total_cycles = float64 (200 / 1000)\<rparr>"

text \<open>One battery that falls from 50.75 to 0 within an hour.\<close>

definition exact_example :: "nat telemetry list" where
  "exact_example =
     [\<lparr>battery_id = 1, ts = 0, battery_soc_pct = 50.75\<rparr>,
      \<lparr>battery_id = 1, ts = 3600000000000, battery_soc_pct = 0\<rparr>]"

text \<open>One battery with two samples of the same instant, forty days after the first one, and
  a sort that \<open>sorts_by_ts\<close> allows: among equal timestamps it keeps the order of the input
  in a frame of fewer than three rows and reverses it in a longer one.\<close>

definition tied_log :: "nat telemetry list" where
  "tied_log =
     [\<lparr>battery_id = 1, ts = 0, battery_soc_pct = 50\<rparr>,
      \<lparr>battery_id = 1, ts = 3456000000000000, battery_soc_pct = 80\<rparr>,
      \<lparr>battery_id = 1, ts = 3456000000000000, battery_soc_pct = 60\<rparr>]"

definition tie_flipping_sort :: "nat telemetry list \<Rightarrow> nat telemetry list" where
  "tie_flipping_sort df = (if length df < 3 then sort_key ts df else sort_key ts (rev df))"

text \<open>Frames of two-hour buckets. In \<open>two_buckets\<close> one battery loses 20 points in one
  bucket; \<open>spec_example\<close> is the series 80, 60, 61, 40 of the specification; in \<open>steady_discharge\<close> one battery loses 20 points in each of two buckets; in
  \<open>gentle_discharge\<close> battery 8 loses 5 points in each of two buckets and battery 4 has two
  buckets only; in \<open>bucket_log\<close> battery 2 has six buckets and battery 5 a single one.\<close>

definition two_buckets :: "nat bucket list" where
  "two_buckets =
     [\<lparr>battery_id = 1, ts = 0, odo = 120, soc = 80\<rparr>,
      \<lparr>battery_id = 1, ts = 7200000000000, odo = 131, soc = 60\<rparr>]"

definition spec_example :: "nat bucket list" where
  "spec_example =
     [\<lparr>battery_id = 1, ts = 0, odo = 0, soc = 80\<rparr>,
      \<lparr>battery_id = 1, ts = 7200000000000, odo = 10, soc = 60\<rparr>,
      \<lparr>battery_id = 1, ts = 14400000000000, odo = 10, soc = 61\<rparr>,
      \<lparr>battery_id = 1, ts = 21600000000000, odo = 20, soc = 40\<rparr>]"

definition steady_discharge :: "nat bucket list" where
  "steady_discharge =
     [\<lparr>battery_id = 1, ts = 0, odo = 0, soc = 60\<rparr>,
      \<lparr>battery_id = 1, ts = 7200000000000, odo = 9, soc = 40\<rparr>,
      \<lparr>battery_id = 1, ts = 14400000000000, odo = 18, soc = 20\<rparr>]"

definition gentle_discharge :: "nat bucket list" where
  "gentle_discharge =
     [\<lparr>battery_id = 8, ts = 14400000000000, odo = 4, soc = 40\<rparr>,
      \<lparr>battery_id = 4, ts = 0, odo = 0, soc = 80\<rparr>,
      \<lparr>battery_id = 8, ts = 0, odo = 0, soc = 50\<rparr>,
      \<lparr>battery_id = 4, ts = 7200000000000, odo = 9, soc = 60\<rparr>,
      \<lparr>battery_id = 8, ts = 7200000000000, odo = 2, soc = 45\<rparr>]"

definition bucket_log :: "nat bucket list" where
  "bucket_log =
     [\<lparr>battery_id = 2, ts = 7200000000000, odo = 14, soc = 45\<rparr>,
      \<lparr>battery_id = 2, ts = 36000000000000, odo = 14, soc = 50\<rparr>,
      \<lparr>battery_id = 5, ts = 0, odo = 3, soc = 33\<rparr>,
      \<lparr>battery_id = 2, ts = 0, odo = 0, soc = 50\<rparr>,
      \<lparr>battery_id = 2, ts = 28800000000000, odo = 14, soc = 50\<rparr>,
      \<lparr>battery_id = 2, ts = 14400000000000, odo = 14, soc = 48\<rparr>,
      \<lparr>battery_id = 2, ts = 21600000000000, odo = 14, soc = 49\<rparr>]"

definition battery_2_rows :: "nat bucket_drop list" where
  "battery_2_rows =
     [\<lparr>battery_id = 2, ts = 0, odo = 0, soc = 50, soc_drop = None\<rparr>,
      \<lparr>battery_id = 2, ts = 7200000000000, odo = 14, soc = 45, soc_drop = Some (- 5)\<rparr>,
      \<lparr>battery_id = 2, ts = 14400000000000, odo = 14, soc = 48, soc_drop = Some 3\<rparr>,
      \<lparr>battery_id = 2, ts = 21600000000000, odo = 14, soc = 49, soc_drop = Some 1\<rparr>,
      \<lparr>battery_id = 2, ts = 28800000000000, odo = 14, soc = 50, soc_drop = Some 1\<rparr>,
      \<lparr>battery_id = 2, ts = 36000000000000, odo = 14, soc = 50, soc_drop = Some 0\<rparr>]"

section \<open>Properties of \<open>float64\<close> rounding\<close>

lemma rint_lower: "\<lfloor>x\<rfloor> \<le> rint x"
  by (simp add: rint_def Let_def)

lemma rint_upper: "rint x \<le> \<lfloor>x\<rfloor> + 1"
  by (simp add: rint_def Let_def)

lemma rint_mono:
  assumes "x \<le> y" shows "rint x \<le> rint y"
proof (cases "\<lfloor>x\<rfloor> = \<lfloor>y\<rfloor>")
  case True
  with assms show ?thesis by (auto simp add: rint_def Let_def)
next
  case False
  with assms have "\<lfloor>x\<rfloor> < \<lfloor>y\<rfloor>" using floor_mono [of x y] by simp
  then have "rint x \<le> \<lfloor>y\<rfloor>" using rint_upper [of x] by simp
  then show ?thesis using rint_lower [of y] by simp
qed

lemma rint_of_int [simp]: "rint (of_int k) = k"
  by (simp add: rint_def)

lemma rint_le_int: "t \<le> of_int N \<Longrightarrow> rint t \<le> N"
  using rint_mono [of t "of_int N"] by simp

lemma rint_ge_int: "of_int N \<le> t \<Longrightarrow> N \<le> rint t"
  using rint_mono [of "of_int N" t] by simp

lemma round3_mono: "x \<le> y \<Longrightarrow> round3 x \<le> round3 y"
  using rint_mono [of "x * 1000" "y * 1000"] by (simp add: round3_def divide_right_mono)

lemma floor_log2_eq:
  assumes "2 powr real_of_int k \<le> x" "x < 2 powr (real_of_int k + 1)"
  shows "\<lfloor>log 2 x\<rfloor> = k"
proof -
  have "0 < 2 powr real_of_int k" by simp
  with assms(1) have pos: "0 < x" by linarith
  have "real_of_int k \<le> log 2 x" using assms(1) pos by (simp add: le_log_iff)
  moreover have "log 2 x < real_of_int k + 1" using assms(2) pos by (simp add: log_less_iff)
  ultimately show ?thesis by linarith
qed

text \<open>Two ways to compute \<open>float64 x\<close>: scale \<open>x\<close> into the range from \<open>2 ^ 52\<close> to \<open>2 ^ 53\<close>,
  round to an integer, scale back.\<close>

lemma float64_scale_up:
  assumes "2 ^ 52 \<le> \<bar>x\<bar> * 2 ^ n" "\<bar>x\<bar> * 2 ^ n < 2 ^ 53" "n \<le> 1074"
  shows "float64 x = of_int (rint (x * 2 ^ n)) / 2 ^ n"
proof -
  have x0: "x \<noteq> 0" using assms(1) by auto
  have p: "(2::real) powr (52 - real n) = 2 ^ 52 / 2 ^ n"
    by (simp add: powr_diff powr_realpow)
  have p1: "(2::real) powr (52 - real n + 1) = 2 ^ 53 / 2 ^ n"
    by (simp add: powr_diff powr_add powr_realpow)
  have "\<lfloor>log 2 \<bar>x\<bar>\<rfloor> = 52 - int n"
  proof (rule floor_log2_eq)
    have "2 ^ 52 / 2 ^ n \<le> \<bar>x\<bar>"
      using assms(1) by (simp add: pos_divide_le_eq)
    then show "2 powr real_of_int (52 - int n) \<le> \<bar>x\<bar>"
      by (simp only: of_int_diff of_int_numeral of_int_of_nat_eq p)
    have "\<bar>x\<bar> < 2 ^ 53 / 2 ^ n"
      using assms(2) by (simp add: pos_less_divide_eq)
    then show "\<bar>x\<bar> < 2 powr (real_of_int (52 - int n) + 1)"
      by (simp only: of_int_diff of_int_numeral of_int_of_nat_eq p1)
  qed
  then have "ulp_exp x = - int n" using assms(3) by (simp add: ulp_exp_def)
  moreover have "(2::real) powr (- real n) = 1 / 2 ^ n"
    by (simp add: powr_minus powr_realpow divide_simps)
  ultimately show ?thesis using x0 by (simp add: float64_def)
qed

lemma float64_scale_down:
  assumes "2 ^ 52 \<le> \<bar>x\<bar> / 2 ^ n" "\<bar>x\<bar> / 2 ^ n < 2 ^ 53"
  shows "float64 x = of_int (rint (x / 2 ^ n)) * 2 ^ n"
proof -
  have x0: "x \<noteq> 0" using assms(1) by auto
  have p: "(2::real) powr (52 + real n) = 2 ^ 52 * 2 ^ n"
    by (simp add: powr_add powr_realpow)
  have p1: "(2::real) powr (52 + real n + 1) = 2 ^ 53 * 2 ^ n"
    by (simp add: powr_add powr_realpow)
  have "\<lfloor>log 2 \<bar>x\<bar>\<rfloor> = 52 + int n"
  proof (rule floor_log2_eq)
    have "2 ^ 52 * 2 ^ n \<le> \<bar>x\<bar>"
      using assms(1) by (simp add: pos_le_divide_eq)
    then show "2 powr real_of_int (52 + int n) \<le> \<bar>x\<bar>"
      by (simp only: of_int_add of_int_numeral of_int_of_nat_eq p)
    have "\<bar>x\<bar> < 2 ^ 53 * 2 ^ n"
      using assms(2) by (simp add: pos_divide_less_eq)
    then show "\<bar>x\<bar> < 2 powr (real_of_int (52 + int n) + 1)"
      by (simp only: of_int_add of_int_numeral of_int_of_nat_eq p1)
  qed
  then have "ulp_exp x = int n" by (simp add: ulp_exp_def)
  moreover have "(2::real) powr (real n) = 2 ^ n"
    by (simp add: powr_realpow)
  ultimately show ?thesis using x0 by (simp add: float64_def)
qed

lemma float64_0 [simp]: "float64 0 = 0"
  by (simp add: float64_def)

lemma log2_bracket:
  assumes "0 < x"
  shows "2 powr real_of_int \<lfloor>log 2 x\<rfloor> \<le> x" and "x < 2 powr (real_of_int \<lfloor>log 2 x\<rfloor> + 1)"
proof -
  have "real_of_int \<lfloor>log 2 x\<rfloor> \<le> log 2 x" by (rule of_int_floor_le)
  then show "2 powr real_of_int \<lfloor>log 2 x\<rfloor> \<le> x"
    using le_log_iff [of 2 x "real_of_int \<lfloor>log 2 x\<rfloor>"] assms by linarith
  have "log 2 x < real_of_int \<lfloor>log 2 x\<rfloor> + 1" by linarith
  then show "x < 2 powr (real_of_int \<lfloor>log 2 x\<rfloor> + 1)"
    using log_less_iff [of 2 x "real_of_int \<lfloor>log 2 x\<rfloor> + 1"] assms by linarith
qed

lemma float64_upper:
  assumes "0 < x"
  shows "float64 x \<le> 2 powr (real_of_int (ulp_exp x) + 53)"
proof -
  let ?u = "2 powr real_of_int (ulp_exp x)"
  have u: "0 < ?u" by simp
  have "real_of_int \<lfloor>log 2 x\<rfloor> + 1 \<le> real_of_int (ulp_exp x) + 53"
    using assms by (simp add: ulp_exp_def)
  then have "2 powr (real_of_int \<lfloor>log 2 x\<rfloor> + 1) \<le> 2 powr (real_of_int (ulp_exp x) + 53)"
    by (intro powr_mono) simp_all
  moreover have "x < 2 powr (real_of_int \<lfloor>log 2 x\<rfloor> + 1)"
    by (rule log2_bracket(2) [OF assms])
  ultimately have "x \<le> 2 powr (real_of_int (ulp_exp x) + 53)" by linarith
  also have "\<dots> = 2 ^ 53 * ?u" by (simp add: powr_add)
  finally have "x / ?u \<le> of_int (2 ^ 53)" using u by (simp add: pos_divide_le_eq)
  then have "rint (x / ?u) \<le> 2 ^ 53" by (rule rint_le_int)
  then have "real_of_int (rint (x / ?u)) \<le> real_of_int (2 ^ 53)" by (simp only: of_int_le_iff)
  then have "real_of_int (rint (x / ?u)) \<le> 2 ^ 53" by simp
  then have "real_of_int (rint (x / ?u)) * ?u \<le> 2 ^ 53 * ?u"
    using u by (simp add: mult_right_mono)
  then show ?thesis using assms by (simp add: float64_def powr_add)
qed

lemma float64_lower:
  assumes "0 < x" and "ulp_exp x = \<lfloor>log 2 x\<rfloor> - 52"
  shows "2 powr (real_of_int (ulp_exp x) + 52) \<le> float64 x"
proof -
  let ?u = "2 powr real_of_int (ulp_exp x)"
  have u: "0 < ?u" by simp
  have "real_of_int (ulp_exp x) + 52 = real_of_int \<lfloor>log 2 x\<rfloor>" using assms(2) by simp
  with log2_bracket(1) [OF assms(1)] have "2 powr (real_of_int (ulp_exp x) + 52) \<le> x" by simp
  moreover have "2 powr (real_of_int (ulp_exp x) + 52) = 2 ^ 52 * ?u" by (simp add: powr_add)
  ultimately have "of_int (2 ^ 52) \<le> x / ?u" using u by (simp add: pos_le_divide_eq)
  then have "2 ^ 52 \<le> rint (x / ?u)" by (rule rint_ge_int)
  then have "real_of_int (2 ^ 52) \<le> real_of_int (rint (x / ?u))" by (simp only: of_int_le_iff)
  then have "2 ^ 52 \<le> real_of_int (rint (x / ?u))" by simp
  then have "2 ^ 52 * ?u \<le> real_of_int (rint (x / ?u)) * ?u"
    using u by (simp add: mult_right_mono)
  then show ?thesis using assms(1) by (simp add: float64_def powr_add)
qed

lemma float64_nonneg: "0 \<le> x \<Longrightarrow> 0 \<le> float64 x"
proof -
  assume "0 \<le> x"
  then have "0 \<le> x / 2 powr real_of_int (ulp_exp x)" by simp
  then have "0 \<le> rint (x / 2 powr real_of_int (ulp_exp x))"
    using rint_ge_int [of 0] by simp
  then show ?thesis by (simp add: float64_def)
qed

lemma float64_mono:
  assumes "0 \<le> x" and "x \<le> y"
  shows "float64 x \<le> float64 y"
proof (cases "x = 0")
  case True
  then show ?thesis using assms float64_nonneg [of y] by simp
next
  case False
  with assms have x: "0 < x" and y: "0 < y" by simp_all
  have "log 2 x \<le> log 2 y" using x assms(2) by simp
  then have "\<lfloor>log 2 x\<rfloor> \<le> \<lfloor>log 2 y\<rfloor>" by (rule floor_mono)
  then have le: "ulp_exp x \<le> ulp_exp y" using x y by (simp add: ulp_exp_def)
  show ?thesis
  proof (cases "ulp_exp x = ulp_exp y")
    case True
    let ?u = "2 powr real_of_int (ulp_exp y)"
    have "x / ?u \<le> y / ?u" using assms(2) by (simp add: divide_right_mono)
    then have "rint (x / ?u) \<le> rint (y / ?u)" by (rule rint_mono)
    then have "real_of_int (rint (x / ?u)) * ?u \<le> real_of_int (rint (y / ?u)) * ?u"
      by (simp add: mult_right_mono)
    then show ?thesis using x y True by (simp add: float64_def)
  next
    case False
    with le have lt: "ulp_exp x < ulp_exp y" by simp
    have "- 1074 \<le> ulp_exp x" by (simp add: ulp_exp_def)
    with lt have "- 1074 < ulp_exp y" by simp
    then have "ulp_exp y = \<lfloor>log 2 y\<rfloor> - 52"
      using y by (simp add: ulp_exp_def max_def split: if_splits)
    then have "2 powr (real_of_int (ulp_exp y) + 52) \<le> float64 y"
      using y by (intro float64_lower) simp_all
    moreover have "float64 x \<le> 2 powr (real_of_int (ulp_exp x) + 53)"
      using x by (rule float64_upper)
    moreover have "real_of_int (ulp_exp x) + 53 \<le> real_of_int (ulp_exp y) + 52"
      using lt by linarith
    then have "2 powr (real_of_int (ulp_exp x) + 53) \<le> 2 powr (real_of_int (ulp_exp y) + 52)"
      by (simp add: powr_mono)
    ultimately show ?thesis by linarith
  qed
qed

lemma np_round3_0 [simp]: "np_round3 0 = 0"
  using rint_of_int [of 0] by (simp add: np_round3_def)

lemma np_round3_mono:
  assumes "0 \<le> x" and "x \<le> y"
  shows "np_round3 x \<le> np_round3 y"
proof -
  have a: "0 \<le> x * 1000" "x * 1000 \<le> y * 1000" using assms by simp_all
  then have b: "float64 (x * 1000) \<le> float64 (y * 1000)" by (rule float64_mono)
  have c: "0 \<le> float64 (x * 1000)" using a(1) by (rule float64_nonneg)
  from b have d: "rint (float64 (x * 1000)) \<le> rint (float64 (y * 1000))" by (rule rint_mono)
  from c have "0 \<le> rint (float64 (x * 1000))" using rint_ge_int [of 0] by simp
  then have "0 \<le> real_of_int (rint (float64 (x * 1000))) / 1000" by simp
  moreover have "real_of_int (rint (float64 (x * 1000))) / 1000
      \<le> real_of_int (rint (float64 (y * 1000))) / 1000"
    using d by (simp add: divide_right_mono)
  ultimately show ?thesis unfolding np_round3_def by (rule float64_mono)
qed

section \<open>Properties of the cycle computation\<close>

lemma nansum_Cons [simp]:
  "nansum [] = 0" "nansum (None # xs) = nansum xs" "nansum (Some x # xs) = x + nansum xs"
  by (simp_all add: nansum_def)

lemma drop_column_aux:
  "nansum (map (clip_lower 0) (map2 nan_fsub (map Some (butlast (x # xs))) (map Some xs)))
     = discharge (x # xs)"
  by (induction xs arbitrary: x) (simp_all add: clip_lower_def nan_fsub_def)

lemma drop_column_sum:
  "nansum (map (clip_lower 0) (map2 nan_fsub (shift1 xs) (map Some xs))) = discharge xs"
proof (cases xs)
  case Nil
  then show ?thesis by (simp add: shift1_def)
next
  case (Cons x ys)
  have "map2 nan_fsub (shift1 xs) (map Some xs)
        = None # map2 nan_fsub (map Some (butlast (x # ys))) (map Some ys)"
    unfolding Cons shift1_def by (simp add: nan_fsub_def)
  then show ?thesis
    using drop_column_aux [of x ys] by (simp add: Cons clip_lower_def)
qed

lemma calculate_cycles_discharge:
  "calculate_cycles sort_values df
     = float64 (discharge (map battery_soc_pct (sort_values df)) / 100)"
  unfolding calculate_cycles_def Let_def drop_column_sum ..

lemma discharge_nonneg: "0 \<le> discharge xs"
  by (induction xs rule: discharge.induct) simp_all

lemma discharge_Cons_le: "discharge xs \<le> discharge (x # xs)"
  by (cases xs) (simp_all)

lemma discharge_suffix: "discharge zs \<le> discharge (ys @ zs)"
proof (induction ys)
  case Nil
  show ?case by simp
next
  case (Cons y ys)
  have "discharge (ys @ zs) \<le> discharge (y # ys @ zs)" by (rule discharge_Cons_le)
  with Cons show ?case by simp
qed

lemma discharge_sum:
  "discharge s = (\<Sum>i = 1..<length s. max 0 (float64 (s ! (i - 1) - s ! i)))"
proof (induction s rule: discharge.induct)
  case (1 x y zs)
  let ?f = "\<lambda>i. max 0 (float64 ((x # y # zs) ! (i - 1) - (x # y # zs) ! i))"
  let ?g = "\<lambda>i. max 0 (float64 ((y # zs) ! (i - 1) - (y # zs) ! i))"
  have "(\<Sum>i = 1..<length (x # y # zs). ?f i) = (\<Sum>i = Suc 0..<Suc (Suc (length zs)). ?f i)"
    by simp
  also have "\<dots> = ?f (Suc 0) + (\<Sum>i = Suc (Suc 0)..<Suc (Suc (length zs)). ?f i)"
    by (rule sum.atLeast_Suc_lessThan) simp
  also have "(\<Sum>i = Suc (Suc 0)..<Suc (Suc (length zs)). ?f i)
           = (\<Sum>i = Suc 0..<Suc (length zs). ?f (Suc i))"
    by (rule sum.shift_bounds_Suc_ivl)
  also have "\<dots> = (\<Sum>i = Suc 0..<Suc (length zs). ?g i)"
  proof (rule sum.cong [OF refl])
    fix i assume "i \<in> {Suc 0..<Suc (length zs)}"
    then obtain j where "i = Suc j" by (cases i) auto
    then show "?f (Suc i) = ?g i" by simp
  qed
  finally show ?case using 1 by simp
qed simp_all

lemma discharge_short: "length xs < 2 \<Longrightarrow> discharge xs = 0"
  by (cases xs rule: discharge.cases) simp_all

lemma set_unique [simp]: "set (unique xs) = set xs"
  by (induction xs rule: unique.induct) auto

lemma distinct_unique [simp]: "distinct (unique xs)"
  by (induction xs rule: unique.induct) auto

lemma ts_max_Max: "xs \<noteq> [] \<Longrightarrow> ts_max xs = Some (Max (set xs))"
proof (cases xs)
  case (Cons x ys)
  have "Max (set (x # ys)) = fold max ys x" by (rule Max.set_eq_fold)
  then show ?thesis unfolding Cons ts_max_def by simp
qed simp

lemma window_filter:
  "bdf \<noteq> [] \<Longrightarrow> window w bdf = filter (\<lambda>r. Max (ts ` set bdf) - w \<le> ts r) bdf"
  by (simp add: window_def ts_max_Max)

lemma window_Nil [simp]: "window w [] = []"
  by (simp add: window_def)

lemma sorted_filter_suffix:
  "sorted (map f xs) \<Longrightarrow> \<exists>ys. xs = ys @ filter (\<lambda>r. c \<le> f r) xs"
proof (induction xs)
  case Nil
  then show ?case by simp
next
  case (Cons x xs)
  show ?case
  proof (cases "c \<le> f x")
    case True
    with Cons.prems have "\<forall>r \<in> set xs. c \<le> f r" by auto
    then have "filter (\<lambda>r. c \<le> f r) xs = xs" by simp
    with True show ?thesis by simp
  next
    case False
    from Cons obtain ys where "xs = ys @ filter (\<lambda>r. c \<le> f r) xs" by auto
    then have "x # xs = (x # ys) @ filter (\<lambda>r. c \<le> f r) (x # xs)" using False by simp
    then show ?thesis by blast
  qed
qed

lemma discharge_cut_le:
  fixes df :: "'b telemetry list"
  assumes "c' \<le> c"
  shows "discharge (map battery_soc_pct (sort_key ts (filter (\<lambda>r. c \<le> ts r) df)))
       \<le> discharge (map battery_soc_pct (sort_key ts (filter (\<lambda>r. c' \<le> ts r) df)))"
proof -
  let ?s = "sort_key ts (filter (\<lambda>r. c' \<le> ts r) df)"
  have "filter (\<lambda>r. c \<le> ts r) df = filter (\<lambda>r. c \<le> ts r) (filter (\<lambda>r. c' \<le> ts r) df)"
    using assms by (auto intro: filter_cong)
  then have "sort_key ts (filter (\<lambda>r. c \<le> ts r) df) = filter (\<lambda>r. c \<le> ts r) ?s"
    by (simp only: filter_sort)
  moreover obtain ys where "?s = ys @ filter (\<lambda>r. c \<le> ts r) ?s"
    using sorted_filter_suffix [of ts ?s c] by auto
  ultimately have "map battery_soc_pct ?s
      = map battery_soc_pct ys @ map battery_soc_pct (sort_key ts (filter (\<lambda>r. c \<le> ts r) df))"
    by (metis map_append)
  then show ?thesis using discharge_suffix by metis
qed

lemma discharge_cut_le_all:
  fixes df :: "'b telemetry list"
  shows "discharge (map battery_soc_pct (sort_key ts (filter (\<lambda>r. c \<le> ts r) df)))
       \<le> discharge (map battery_soc_pct (sort_key ts df))"
proof -
  let ?s = "sort_key ts df"
  have "sort_key ts (filter (\<lambda>r. c \<le> ts r) df) = filter (\<lambda>r. c \<le> ts r) ?s"
    by (simp only: filter_sort)
  moreover obtain ys where "?s = ys @ filter (\<lambda>r. c \<le> ts r) ?s"
    using sorted_filter_suffix [of ts ?s c] by auto
  ultimately have "map battery_soc_pct ?s
      = map battery_soc_pct ys @ map battery_soc_pct (sort_key ts (filter (\<lambda>r. c \<le> ts r) df))"
    by (metis map_append)
  then show ?thesis using discharge_suffix by metis
qed

text \<open>What \<open>sorts_by_ts\<close> gives.\<close>

lemma sorts_by_ts_sort_key: "sorts_by_ts (sort_key ts)"
  by (simp add: sorts_by_ts_def)

lemma sorts_by_ts_length: "sorts_by_ts sort_values \<Longrightarrow> length (sort_values df) = length df"
  by (metis sorts_by_ts_def size_mset)

lemma filter_same_key:
  "distinct (map f xs) \<Longrightarrow> k \<in> set xs \<Longrightarrow> filter (\<lambda>x. f k = f x) xs = [k]"
proof (induction xs)
  case Nil
  then show ?case by simp
next
  case (Cons x xs)
  show ?case
  proof (cases "k = x")
    case True
    from Cons.prems have "\<forall>y \<in> set xs. f x \<noteq> f y" by auto
    then have "filter (\<lambda>y. f x = f y) xs = []" by (simp add: filter_empty_conv)
    with True show ?thesis by simp
  next
    case False
    with Cons.prems have k: "k \<in> set xs" by simp
    then have "f k \<in> f ` set xs" by (rule imageI)
    moreover from Cons.prems have "f x \<notin> f ` set xs" by simp
    ultimately have "f k \<noteq> f x" by metis
    with Cons k show ?thesis by simp
  qed
qed

lemma sorted_permutation_unique:
  assumes "mset ys = mset xs" and "sorted (map f ys)" and "distinct (map f xs)"
  shows "sort_key f xs = ys"
proof (rule properties_for_sort_key)
  show "mset ys = mset xs" by (rule assms(1))
  show "sorted (map f ys)" by (rule assms(2))
  fix k assume k: "k \<in> set ys"
  then have k': "k \<in> set xs" using mset_eq_setD [OF assms(1)] by simp
  have "mset (map f ys) = mset (map f xs)" using assms(1) by simp
  then have "distinct (map f ys)"
    using assms(3) by (metis mset_eq_imp_distinct_iff)
  then have "filter (\<lambda>x. f k = f x) ys = [k]"
    using k by (rule filter_same_key)
  moreover have "filter (\<lambda>x. f k = f x) xs = [k]"
    using assms(3) k' by (rule filter_same_key)
  ultimately show "filter (\<lambda>x. f k = f x) ys = filter (\<lambda>x. f k = f x) xs"
    by simp
qed

lemma sorts_by_ts_distinct:
  assumes "sorts_by_ts sort_values" and "distinct (map ts df)"
  shows "sort_values df = sort_key ts df"
  using assms sorted_permutation_unique [of "sort_values df" df ts]
  by (simp add: sorts_by_ts_def)

lemma guarded_cycles:
  assumes "sorts_by_ts sort_values"
  shows "(if length df > 1 then calculate_cycles sort_values df else 0)
     = float64 (discharge (map battery_soc_pct (sort_values df)) / 100)"
proof (cases "length df > 1")
  case True
  then show ?thesis by (simp add: calculate_cycles_discharge)
next
  case False
  then have "length (map battery_soc_pct (sort_values df)) < 2"
    using sorts_by_ts_length [OF assms, of df] by simp
  then have "discharge (map battery_soc_pct (sort_values df)) = 0" by (rule discharge_short)
  with False show ?thesis by simp
qed

lemma efc_float64_discharge:
  "efc_float64 sort_values sub
     = np_round3 (float64 (discharge (map battery_soc_pct (sort_values sub)) / 100))"
  by (simp add: efc_float64_def Let_def discharge_sum)

lemma restricted_window: "bdf \<noteq> [] \<Longrightarrow> restricted (Some w) bdf = window w bdf"
  by (simp add: restricted_def window_filter)

lemma restricted_None: "restricted None bdf = bdf"
  by (simp add: restricted_def)

text \<open>The fields of a result row.\<close>

lemma battery_cycles_guarded:
  "battery_id (battery_cycles sort_values df b) = b"
  "cycles_last_24h (battery_cycles sort_values df b)
     = np_round3 (if length (window hours_24 (filter (\<lambda>r. battery_id r = b) df)) > 1
         then calculate_cycles sort_values (window hours_24 (filter (\<lambda>r. battery_id r = b) df))
         else 0)"
  "cycles_last_7d (battery_cycles sort_values df b)
     = np_round3 (if length (window days_7 (filter (\<lambda>r. battery_id r = b) df)) > 1
         then calculate_cycles sort_values (window days_7 (filter (\<lambda>r. battery_id r = b) df))
         else 0)"
  "cycles_last_30d (battery_cycles sort_values df b)
     = np_round3 (if length (window days_30 (filter (\<lambda>r. battery_id r = b) df)) > 1
         then calculate_cycles sort_values (window days_30 (filter (\<lambda>r. battery_id r = b) df))
         else 0)"
  "total_cycles (battery_cycles sort_values df b)
     = np_round3 (calculate_cycles sort_values (filter (\<lambda>r. battery_id r = b) df))"
  by (simp_all add: battery_cycles_def Let_def)

lemma battery_cycles_fields:
  assumes "sorts_by_ts sort_values"
  shows "cycles_last_24h (battery_cycles sort_values df b)
     = np_round3 (float64 (discharge (map battery_soc_pct (sort_values
         (window hours_24 (filter (\<lambda>r. battery_id r = b) df)))) / 100))"
  and "cycles_last_7d (battery_cycles sort_values df b)
     = np_round3 (float64 (discharge (map battery_soc_pct (sort_values
         (window days_7 (filter (\<lambda>r. battery_id r = b) df)))) / 100))"
  and "cycles_last_30d (battery_cycles sort_values df b)
     = np_round3 (float64 (discharge (map battery_soc_pct (sort_values
         (window days_30 (filter (\<lambda>r. battery_id r = b) df)))) / 100))"
  and "total_cycles (battery_cycles sort_values df b)
     = np_round3 (float64 (discharge (map battery_soc_pct (sort_values
         (filter (\<lambda>r. battery_id r = b) df))) / 100))"
  unfolding battery_cycles_guarded
  unfolding guarded_cycles [OF assms]
  unfolding calculate_cycles_discharge
  by (rule refl)+

lemma compute_all_cycles_row:
  assumes "row \<in> set (compute_all_cycles sort_values df)"
  shows "row = battery_cycles sort_values df (battery_id row)"
    and "filter (\<lambda>r. battery_id r = battery_id row) df \<noteq> []"
proof -
  from assms obtain b where b: "b \<in> set (map battery_id df)"
    and row: "row = battery_cycles sort_values df b"
    by (auto simp add: compute_all_cycles_def)
  from row have "battery_id row = b" by (simp add: battery_cycles_guarded)
  with row show "row = battery_cycles sort_values df (battery_id row)" by simp
  from b \<open>battery_id row = b\<close> show "filter (\<lambda>r. battery_id r = battery_id row) df \<noteq> []"
    by (auto simp add: filter_empty_conv)
qed

lemma compute_all_cycles_batteries:
  "map battery_id (compute_all_cycles sort_values df) = unique (map battery_id df)"
  by (simp add: compute_all_cycles_def battery_cycles_guarded comp_def)

lemma window_discharge_mono:
  fixes bdf :: "'b telemetry list"
  assumes "w \<le> w'"
  shows "discharge (map battery_soc_pct (sort_key ts (window w bdf)))
       \<le> discharge (map battery_soc_pct (sort_key ts (window w' bdf)))"
proof (cases "bdf = []")
  case True
  then show ?thesis by simp
next
  case False
  then show ?thesis
    using assms discharge_cut_le [of "Max (ts ` set bdf) - w'" "Max (ts ` set bdf) - w" bdf]
    by (simp add: window_filter)
qed

lemma window_discharge_le_total:
  fixes bdf :: "'b telemetry list"
  shows "discharge (map battery_soc_pct (sort_key ts (window w bdf)))
       \<le> discharge (map battery_soc_pct (sort_key ts bdf))"
proof (cases "bdf = []")
  case True
  then show ?thesis by simp
next
  case False
  then show ?thesis
    using discharge_cut_le_all [of "Max (ts ` set bdf) - w" bdf]
    by (simp add: window_filter)
qed

lemma distinct_window: "distinct (map ts bdf) \<Longrightarrow> distinct (map ts (window w bdf))"
  by (simp add: window_def distinct_map_filter)

text \<open>Counts are monotone in the total discharge.\<close>

lemma count_mono:
  assumes "discharge xs \<le> discharge ys"
  shows "np_round3 (float64 (discharge xs / 100)) \<le> np_round3 (float64 (discharge ys / 100))"
proof -
  have a: "0 \<le> discharge xs / 100" using discharge_nonneg [of xs] by simp
  moreover have b: "discharge xs / 100 \<le> discharge ys / 100"
    using assms by (simp add: divide_right_mono)
  ultimately have "float64 (discharge xs / 100) \<le> float64 (discharge ys / 100)"
    by (rule float64_mono)
  moreover have "0 \<le> float64 (discharge xs / 100)" using a by (rule float64_nonneg)
  ultimately show ?thesis by (rule np_round3_mono [rotated])
qed

section \<open>The example frames of \<open>cycles.py\<close>, evaluated\<close>

text \<open>A multiple of a power of two with fewer than 54 bits is a \<open>float64\<close>.\<close>

lemma float64_dyadic:
  assumes "\<bar>k\<bar> < 2 ^ 53" and "m \<le> 1074"
  shows "float64 (of_int k / 2 ^ m) = of_int k / 2 ^ m"
proof (cases "k = 0")
  case True
  then show ?thesis by simp
next
  case False
  let ?x = "real_of_int k / 2 ^ m"
  have x0: "?x \<noteq> 0" using False by simp
  have ax: "\<bar>?x\<bar> = real_of_int \<bar>k\<bar> / 2 ^ m" by (simp add: abs_divide)
  have "real_of_int \<bar>k\<bar> < real_of_int (2 ^ 53)" using assms(1) by (simp only: of_int_less_iff)
  then have "\<bar>?x\<bar> < 2 ^ 53 / 2 ^ m" unfolding ax by (simp add: divide_strict_right_mono)
  also have "\<dots> = 2 powr (53 - real m)" by (simp add: powr_diff powr_realpow)
  finally have "log 2 \<bar>?x\<bar> < 53 - real m"
    using x0 by (simp add: log_less_iff)
  then have "\<lfloor>log 2 \<bar>?x\<bar>\<rfloor> < 53 - int m" by linarith
  then have "ulp_exp ?x \<le> - int m" using assms(2) by (simp add: ulp_exp_def)
  then obtain j :: nat where j: "ulp_exp ?x = - int m - int j"
    by (metis diff_ge_0_iff_ge nonneg_int_cases diff_diff_eq2 add.commute diff_add_cancel)
  have u: "2 powr real_of_int (ulp_exp ?x) = 1 / (2 ^ m * 2 ^ j)"
  proof -
    have "real_of_int (ulp_exp ?x) = - (real m + real j)" using j by simp
    then have "2 powr real_of_int (ulp_exp ?x) = 2 powr (- (real m + real j))" by simp
    also have "\<dots> = 1 / 2 powr (real m + real j)" by (simp only: powr_minus inverse_eq_divide)
    also have "\<dots> = 1 / (2 ^ m * 2 ^ j)" by (simp add: powr_add powr_realpow)
    finally show ?thesis .
  qed
  have "?x / 2 powr real_of_int (ulp_exp ?x) = real_of_int (k * 2 ^ j)"
    unfolding u by simp
  then have "rint (?x / 2 powr real_of_int (ulp_exp ?x)) = k * 2 ^ j"
    by (simp only: rint_of_int)
  then have "float64 ?x = real_of_int (k * 2 ^ j) * (1 / (2 ^ m * 2 ^ j))"
    using x0 by (simp only: float64_def u if_False)
  then show ?thesis by simp
qed

lemma float64_values:
  "float64 (19 / 2) = 19 / 2" "float64 25 = 25" "float64 (- 5) = - 5" "float64 10 = 10"
  "float64 20 = 20" "float64 (203 / 4) = 203 / 4" "float64 (- 10) = - 10"
  "float64 (- 30) = - 30" "float64 (- 20) = - 20"
  using float64_dyadic [of 19 1] float64_dyadic [of 25 0] float64_dyadic [of "- 5" 0]
    float64_dyadic [of 10 0] float64_dyadic [of 20 0] float64_dyadic [of 203 2]
    float64_dyadic [of "- 10" 0] float64_dyadic [of "- 30" 0] float64_dyadic [of "- 20" 0]
  by simp_all

lemma np_round3_19_200: "np_round3 (float64 (19 / 200)) = float64 (95 / 1000)"
proof -
  have a: "float64 (19 / 200) = 6845471433603154 / 2 ^ 56"
    by (subst float64_scale_up [where n = 56]) (simp_all add: rint_def)
  have "float64 (6845471433603154 / 2 ^ 56 * 1000) = 6685030696878080 / 2 ^ 46"
    by (subst float64_scale_up [where n = 46]) (simp_all add: rint_def)
  moreover have "rint (6685030696878080 / 2 ^ 46) = 95"
    by (simp add: rint_def)
  ultimately show ?thesis
    by (simp only: np_round3_def a of_int_numeral)
qed

lemma np_round3_69_200: "np_round3 (float64 (69 / 200)) = float64 (345 / 1000)"
proof -
  have a: "float64 (69 / 200) = 6214967485771284 / 2 ^ 54"
    by (subst float64_scale_up [where n = 54]) (simp_all add: rint_def)
  have "float64 (6214967485771284 / 2 ^ 54 * 1000) = 6069304185323520 / 2 ^ 44"
    by (subst float64_scale_up [where n = 44]) (simp_all add: rint_def)
  moreover have "rint (6069304185323520 / 2 ^ 44) = 345"
    by (simp add: rint_def)
  ultimately show ?thesis
    by (simp only: np_round3_def a of_int_numeral)
qed

lemma np_round3_89_200: "np_round3 (float64 (89 / 200)) = float64 (445 / 1000)"
proof -
  have a: "float64 (89 / 200) = 8016407336719483 / 2 ^ 54"
    by (subst float64_scale_up [where n = 54]) (simp_all add: rint_def)
  have "float64 (8016407336719483 / 2 ^ 54 * 1000) = 7828522789765120 / 2 ^ 44"
    by (subst float64_scale_up [where n = 44]) (simp_all add: rint_def)
  moreover have "rint (7828522789765120 / 2 ^ 44) = 445"
    by (simp add: rint_def)
  ultimately show ?thesis
    by (simp only: np_round3_def a of_int_numeral)
qed

lemma np_round3_1_5: "np_round3 (float64 (1 / 5)) = float64 (200 / 1000)"
proof -
  have a: "float64 (1 / 5) = 7205759403792794 / 2 ^ 55"
    by (subst float64_scale_up [where n = 55]) (simp_all add: rint_def)
  have "float64 (7205759403792794 / 2 ^ 55 * 1000) = 7036874417766400 / 2 ^ 45"
    by (subst float64_scale_up [where n = 45]) (simp_all add: rint_def)
  moreover have "rint (7036874417766400 / 2 ^ 45) = 200"
    by (simp add: rint_def)
  ultimately show ?thesis
    by (simp only: np_round3_def a of_int_numeral)
qed

lemma np_round3_203_400: "np_round3 (float64 (203 / 400)) = float64 (507 / 1000)"
proof -
  have a: "float64 (203 / 400) = 4571153621781053 / 2 ^ 53"
    by (subst float64_scale_up [where n = 53]) (simp_all add: rint_def)
  have "float64 (4571153621781053 / 2 ^ 53 * 1000) = 8928034417541119 / 2 ^ 44"
    by (subst float64_scale_up [where n = 44]) (simp_all add: rint_def)
  moreover have "rint (8928034417541119 / 2 ^ 44) = 507"
    by (simp add: rint_def)
  ultimately show ?thesis
    by (simp only: np_round3_def a of_int_numeral)
qed

lemma float64_507: "float64 (507 / 1000) = 4566650022153683 / 2 ^ 53"
  by (subst float64_scale_up [where n = 53]) (simp_all add: rint_def)

lemma float64_one_fifth: "float64 (1 / 5) = 7205759403792794 / 2 ^ 55"
  by (subst float64_scale_up [where n = 55]) (simp_all add: rint_def)

lemmas cycles_defs =
  compute_all_cycles_def battery_cycles_def window_def ts_max_def calculate_cycles_discharge
  hours_24_def days_7_def days_30_def Let_def float64_values
  np_round3_19_200 np_round3_69_200 np_round3_89_200 np_round3_1_5 np_round3_203_400

lemma fleet_log_cycles:
  "compute_all_cycles (sort_key ts) fleet_log
     = [battery_7_counts, battery_3_counts, battery_9_counts]"
  by (simp add: fleet_log_def battery_7_counts_def battery_3_counts_def battery_9_counts_def
        cycles_defs)

lemma exact_example_cycles:
  "compute_all_cycles (sort_key ts) exact_example =
     [\<lparr>battery_id = 1, cycles_last_24h = float64 (507 / 1000),
       cycles_last_7d = float64 (507 / 1000), cycles_last_30d = float64 (507 / 1000),
       total_cycles = float64 (507 / 1000)\<rparr>]"
  by (simp add: exact_example_def cycles_defs)

lemma exact_example_efc: "efc (restricted None exact_example) = 508 / 1000"
  by (simp add: efc_def restricted_def exact_example_def round3_def rint_def Let_def)

lemma sorts_by_ts_tie_flipping: "sorts_by_ts tie_flipping_sort"
  by (simp add: sorts_by_ts_def tie_flipping_sort_def)

lemma tied_log_cycles:
  "compute_all_cycles tie_flipping_sort tied_log =
     [\<lparr>battery_id = 1, cycles_last_24h = float64 (200 / 1000),
       cycles_last_7d = float64 (200 / 1000), cycles_last_30d = float64 (200 / 1000),
       total_cycles = 0\<rparr>]"
  by (simp add: tied_log_def tie_flipping_sort_def cycles_defs)

lemma fleet_log_battery_7:
  "filter (\<lambda>r. battery_id r = 7) fleet_log =
     [\<lparr>battery_id = 7, ts = 3456000000000000, battery_soc_pct = 60.5\<rparr>,
      \<lparr>battery_id = 7, ts = 0, battery_soc_pct = 100\<rparr>,
      \<lparr>battery_id = 7, ts = 3024000000000000, battery_soc_pct = 95\<rparr>,
      \<lparr>battery_id = 7, ts = 1728000000000000, battery_soc_pct = 90\<rparr>,
      \<lparr>battery_id = 7, ts = 3412800000000000, battery_soc_pct = 70\<rparr>]"
  by (simp add: fleet_log_def)

lemma fleet_log_battery_9:
  "filter (\<lambda>r. battery_id r = 9) fleet_log =
     [\<lparr>battery_id = 9, ts = 172800000000000, battery_soc_pct = 60\<rparr>,
      \<lparr>battery_id = 9, ts = 0, battery_soc_pct = 80\<rparr>]"
  by (simp add: fleet_log_def)

lemma fleet_log_battery_3:
  "filter (\<lambda>r. battery_id r = 3) fleet_log =
     [\<lparr>battery_id = 3, ts = 432000000000000, battery_soc_pct = 50\<rparr>]"
  by (simp add: fleet_log_def)

section \<open>Properties of the anomaly detection\<close>

lemma length_groupby_diff [simp]: "length (groupby_diff prev rs) = length rs"
  by (induction rs arbitrary: prev) simp_all

lemma length_diff_from [simp]: "length (diff_from p xs) = length xs"
  by (induction xs arbitrary: p) simp_all

lemma add_soc_drop_simps [simp]:
  "battery_id (add_soc_drop r d) = battery_id r"
  "ts (add_soc_drop r d) = ts r"
  "odo (add_soc_drop r d) = odo r"
  "soc (add_soc_drop r d) = soc r"
  "soc_drop (add_soc_drop r d) = d"
  by (simp_all add: add_soc_drop_def)

lemma filter_groupby_diff:
  "filter (\<lambda>r. battery_id r = b) (map2 add_soc_drop rs (groupby_diff prev rs))
     = map2 add_soc_drop (filter (\<lambda>r. battery_id r = b) rs)
         (diff_from (prev b) (map soc (filter (\<lambda>r. battery_id r = b) rs)))"
  by (induction rs arbitrary: prev) simp_all

lemma insort_key_same_battery:
  fixes x :: "('b::linorder, 'z) stamped_scheme"
  assumes "battery_id x = b" and "\<forall>y \<in> set ys. battery_id y = b"
  shows "insort_key (\<lambda>r. (battery_id r, ts r)) x ys = insort_key ts x ys"
  using assms by (induction ys) (simp_all add: less_eq_prod_def)

lemma sort_key_same_battery:
  fixes xs :: "('b::linorder, 'z) stamped_scheme list"
  assumes "\<forall>y \<in> set xs. battery_id y = b"
  shows "sort_key (\<lambda>r. (battery_id r, ts r)) xs = sort_key ts xs"
  using assms
proof (induction xs)
  case Nil
  show ?case by simp
next
  case (Cons x xs)
  then have "sort_key (\<lambda>r. (battery_id r, ts r)) xs = sort_key ts xs" by simp
  moreover have "\<forall>y \<in> set (sort_key ts xs). battery_id y = b" using Cons.prems by simp
  ultimately show ?case
    using Cons.prems insort_key_same_battery [of x b "sort_key ts xs"] by simp
qed

lemma filter_battery_sorted:
  fixes df :: "('b::linorder, 'z) stamped_scheme list"
  shows "filter (\<lambda>r. battery_id r = b) (sort_key (\<lambda>r. (battery_id r, ts r)) df)
       = sort_key ts (filter (\<lambda>r. battery_id r = b) df)"
proof -
  have "filter (\<lambda>r. battery_id r = b) (sort_key (\<lambda>r. (battery_id r, ts r)) df)
      = sort_key (\<lambda>r. (battery_id r, ts r)) (filter (\<lambda>r. battery_id r = b) df)"
    by (rule filter_sort)
  also have "\<dots> = sort_key ts (filter (\<lambda>r. battery_id r = b) df)"
    by (rule sort_key_same_battery [where b = b]) simp
  finally show ?thesis .
qed

lemma map_battery_id_add:
  "length ds = length rs \<Longrightarrow> map battery_id (map2 add_soc_drop rs ds) = map battery_id rs"
  by (induction rs ds rule: list_induct2') simp_all

lemma detect_anomalies_groups:
  "detect_anomalies df
     = map (\<lambda>b. group_anomalies b (group_rows df b)) (sort (remdups (map battery_id df)))"
proof -
  let ?s = "sort_key (\<lambda>r. (battery_id r, ts r)) df"
  have keys: "sort (remdups (map battery_id (map2 add_soc_drop ?s (groupby_diff Map.empty ?s))))
      = sort (remdups (map battery_id df))"
  proof -
    have "map battery_id (map2 add_soc_drop ?s (groupby_diff Map.empty ?s)) = map battery_id ?s"
      by (rule map_battery_id_add) simp
    moreover have "sort (remdups (map battery_id ?s)) = sort (remdups (map battery_id df))"
      by (rule properties_for_sort) (simp_all add: set_eq_iff_mset_remdups_eq [symmetric])
    ultimately show ?thesis by simp
  qed
  have rows: "filter (\<lambda>r. battery_id r = b) (map2 add_soc_drop ?s (groupby_diff Map.empty ?s))
      = group_rows df b" for b
    by (simp only: filter_groupby_diff filter_battery_sorted group_rows_def Let_def)
  show ?thesis
    unfolding detect_anomalies_def Let_def keys rows ..
qed

lemma diff_from_nth:
  "1 \<le> i \<Longrightarrow> i < length xs \<Longrightarrow> diff_from p xs ! i = Some (xs ! i - xs ! (i - 1))"
proof (induction xs arbitrary: p i)
  case Nil
  then show ?case by simp
next
  case (Cons x xs)
  from Cons.prems obtain j where i: "i = Suc j" by (cases i) auto
  show ?case
  proof (cases j)
    case 0
    with i Cons.prems show ?thesis by (cases xs) (simp_all add: nan_sub_def)
  next
    case (Suc k)
    with i Cons.prems Cons.IH [of j "Some x"] show ?thesis by simp
  qed
qed

lemma dropna_diff_from_Some: "length (dropna (diff_from (Some p) xs)) = length xs"
  by (induction xs arbitrary: p) (simp_all add: nan_sub_def)

lemma dropna_diff_from_None: "length (dropna (diff_from None xs)) = length xs - 1"
  by (cases xs) (simp_all add: nan_sub_def dropna_diff_from_Some)

lemma length_group_rows: "length (group_rows df b) = length (filter (\<lambda>r. battery_id r = b) df)"
  by (simp add: group_rows_def Let_def)

lemma map_soc_drop_add:
  "length ds = length rs \<Longrightarrow> map soc_drop (map2 add_soc_drop rs ds) = ds"
  by (induction rs ds rule: list_induct2') simp_all

lemma map_truncate_add:
  "length ds = length rs \<Longrightarrow> map bucket.truncate (map2 add_soc_drop rs ds) = rs"
  by (induction rs ds rule: list_induct2') (simp_all add: add_soc_drop_def bucket.truncate_def)

lemma soc_drop_group_rows:
  "map soc_drop (group_rows df b)
     = diff_from None (map soc (sort_key ts (filter (\<lambda>r. battery_id r = b) df)))"
  unfolding group_rows_def Let_def by (rule map_soc_drop_add) simp

lemma truncate_group_rows:
  "map bucket.truncate (group_rows df b) = sort_key ts (filter (\<lambda>r. battery_id r = b) df)"
  unfolding group_rows_def Let_def by (rule map_truncate_add) simp

lemma group_anomalies_fst: "fst (group_anomalies b g) = b"
  by (simp add: group_anomalies_def Let_def)

lemma group_anomalies_rows: "fst (snd (group_anomalies b g)) = g"
  by (simp add: group_anomalies_def Let_def)

lemma group_anomalies_flagged:
  "snd (snd (group_anomalies b g)) =
     (if dropna (map soc_drop g) = [] then []
      else filter (\<lambda>r. nan_lt (soc_drop r) (Some (- 15)) \<or>
             nan_lt (soc_drop r)
               (nan_sub (Some (mean (dropna (map soc_drop g))))
                  (nan_mul (Some 1.5) (std (dropna (map soc_drop g)))))) g)"
  by (simp add: group_anomalies_def Let_def)

lemma detect_anomalies_entry:
  assumes "(b, g, a) \<in> set (detect_anomalies df)"
  shows "b \<in> battery_id ` set df" and "g = group_rows df b"
    and "a = snd (snd (group_anomalies b g))"
proof -
  from assms obtain b' where b': "b' \<in> set (map battery_id df)"
    and eq: "(b, g, a) = group_anomalies b' (group_rows df b')"
    by (auto simp add: detect_anomalies_groups)
  from eq have "b = b'" using group_anomalies_fst [of b' "group_rows df b'"] by (metis fst_conv)
  moreover from eq have g: "g = group_rows df b'"
    using group_anomalies_rows [of b' "group_rows df b'"] by (metis fst_conv snd_conv)
  ultimately show "g = group_rows df b" by simp
  from b' \<open>b = b'\<close> show "b \<in> battery_id ` set df" by simp
  from eq g \<open>b = b'\<close> show "a = snd (snd (group_anomalies b g))" by (metis snd_conv)
qed

lemma sum_list_constant: "\<forall>x \<in> set xs. x = c \<Longrightarrow> sum_list xs = real (length xs) * c"
  by (induction xs) (simp_all add: algebra_simps)

lemma mean_constant: "xs \<noteq> [] \<Longrightarrow> \<forall>x \<in> set xs. x = c \<Longrightarrow> mean xs = c"
  by (simp add: mean_def sum_list_constant)

lemma squares_constant: "\<forall>x \<in> set xs. x = c \<Longrightarrow> (\<Sum>x\<leftarrow>xs. (x - c)\<^sup>2) = (0::real)"
  by (induction xs) simp_all

lemma std_constant: "2 \<le> length xs \<Longrightarrow> \<forall>x \<in> set xs. x = c \<Longrightarrow> std xs = Some 0"
proof -
  assume len: "2 \<le> length xs" and c: "\<forall>x \<in> set xs. x = c"
  then have "xs \<noteq> []" by auto
  with c have "mean xs = c" by (simp add: mean_constant)
  with len c show ?thesis by (simp add: std_def squares_constant)
qed

lemma std_single: "length xs = 1 \<Longrightarrow> std xs = None"
  by (simp add: std_def)

lemma soc_drop_in_drops: "r \<in> set g \<Longrightarrow> soc_drop r = Some d \<Longrightarrow> d \<in> set (dropna (map soc_drop g))"
proof (induction g)
  case Nil
  then show ?case by simp
next
  case (Cons x g)
  then show ?case by (cases "soc_drop x") auto
qed

lemma dropna_map_Some [simp]: "dropna (map Some xs) = xs"
  by (induction xs) simp_all

lemma diff_from_Some:
  "diff_from (Some x) ys = map Some (map (\<lambda>i. (x # ys) ! i - (x # ys) ! (i - 1)) [1..<Suc (length ys)])"
proof (rule nth_equalityI)
  show "length (diff_from (Some x) ys)
      = length (map Some (map (\<lambda>i. (x # ys) ! i - (x # ys) ! (i - 1)) [1..<Suc (length ys)]))"
    by (simp only: length_diff_from length_map length_upt diff_Suc_1)
  fix j assume "j < length (diff_from (Some x) ys)"
  then have j: "j < length ys" by simp
  then have "diff_from None (x # ys) ! Suc j = Some ((x # ys) ! Suc j - (x # ys) ! (Suc j - 1))"
    by (intro diff_from_nth) simp_all
  then have "diff_from (Some x) ys ! j = Some ((x # ys) ! Suc j - (x # ys) ! j)" by simp
  moreover have "[1..<Suc (length ys)] ! j = Suc j" using j by (simp add: nth_upt del: upt_Suc)
  moreover have "j < length [1..<Suc (length ys)]" using j by (simp del: upt_Suc)
  ultimately show "diff_from (Some x) ys ! j
      = map Some (map (\<lambda>i. (x # ys) ! i - (x # ys) ! (i - 1)) [1..<Suc (length ys)]) ! j"
    by (simp del: upt_Suc)
qed

lemma dropna_diff_from:
  "dropna (diff_from None xs) = map (\<lambda>i. xs ! i - xs ! (i - 1)) [1..<length xs]"
proof (cases xs)
  case Nil
  then show ?thesis by simp
next
  case (Cons x ys)
  have "dropna (diff_from None (x # ys)) = dropna (diff_from (Some x) ys)"
    by (simp add: nan_sub_def)
  also have "\<dots> = map (\<lambda>i. (x # ys) ! i - (x # ys) ! (i - 1)) [1..<Suc (length ys)]"
    by (simp only: diff_from_Some dropna_map_Some)
  finally show ?thesis by (simp only: Cons length_Cons)
qed

lemma defined_drops_of_series:
  assumes "series = sort_key ts (filter (\<lambda>r. battery_id r = b) df)"
  shows "dropna (map soc_drop (group_rows df b))
     = map (\<lambda>i. soc (series ! i) - soc (series ! (i - 1))) [1..<length series]"
proof -
  have "dropna (map soc_drop (group_rows df b))
      = map (\<lambda>i. map soc series ! i - map soc series ! (i - 1)) [1..<length (map soc series)]"
    by (simp only: soc_drop_group_rows dropna_diff_from assms)
  also have "\<dots> = map (\<lambda>i. soc (series ! i) - soc (series ! (i - 1))) [1..<length series]"
    by (rule map_cong) (simp_all add: less_imp_diff_less)
  finally show ?thesis .
qed

section \<open>Reordering the rows of a frame\<close>

lemma sort_key_permutation:
  assumes "mset xs = mset ys" and "distinct (map f xs)"
  shows "sort_key f xs = sort_key f ys"
  using assms by (intro sorted_permutation_unique) simp_all

lemma sort_values_permutation:
  assumes "sorts_by_ts sort_values" and "mset xs = mset ys" and "distinct (map ts xs)"
  shows "sort_values xs = sort_values ys"
proof -
  have "mset (map ts ys) = mset (map ts xs)" using assms(2) by simp
  then have "distinct (map ts ys)" using assms(3) by (metis mset_eq_imp_distinct_iff)
  then have "sort_values ys = sort_key ts ys" using assms(1) by (intro sorts_by_ts_distinct)
  moreover have "sort_values xs = sort_key ts xs" using assms(1,3) by (rule sorts_by_ts_distinct)
  moreover have "sort_key ts xs = sort_key ts ys" using assms(2,3) by (rule sort_key_permutation)
  ultimately show ?thesis by simp
qed

lemma calculate_cycles_permutation:
  assumes "sorts_by_ts sort_values" and "mset xs = mset ys" and "distinct (map ts xs)"
  shows "calculate_cycles sort_values xs = calculate_cycles sort_values ys"
  using sort_values_permutation [OF assms] by (simp add: calculate_cycles_discharge)

lemma ts_max_permutation:
  assumes "mset xs = mset ys"
  shows "ts_max (map ts xs) = ts_max (map ts ys)"
proof (cases "xs = []")
  case True
  with assms show ?thesis by simp
next
  case False
  with assms have "ys \<noteq> []" by auto
  moreover have "set (map ts xs) = set (map ts ys)"
    using assms by (metis mset_eq_setD set_map)
  ultimately show ?thesis using False by (simp add: ts_max_Max del: set_map)
qed

lemma window_permutation:
  assumes "mset xs = mset ys" and "distinct (map ts xs)"
  shows "mset (window w xs) = mset (window w ys)" and "distinct (map ts (window w xs))"
  using assms ts_max_permutation [OF assms(1)]
  by (simp_all add: window_def distinct_map_filter)

lemma guarded_cycles_permutation:
  assumes "sorts_by_ts sort_values" and "mset xs = mset ys" and "distinct (map ts xs)"
  shows "(if length (window w xs) > 1 then calculate_cycles sort_values (window w xs) else 0)
       = (if length (window w ys) > 1 then calculate_cycles sort_values (window w ys) else 0)"
proof -
  have "calculate_cycles sort_values (window w xs) = calculate_cycles sort_values (window w ys)"
    using assms(1) window_permutation [OF assms(2,3)] by (rule calculate_cycles_permutation)
  moreover have "length (window w xs) = length (window w ys)"
    using window_permutation(1) [OF assms(2,3)] by (metis size_mset)
  ultimately show ?thesis by simp
qed

lemma battery_cycles_permutation:
  assumes "sorts_by_ts sort_values" and "mset df' = mset df"
      and "distinct (map ts (filter (\<lambda>r. battery_id r = b) df'))"
  shows "battery_cycles sort_values df' b = battery_cycles sort_values df b"
proof -
  let ?x = "filter (\<lambda>r. battery_id r = b) df'" and ?y = "filter (\<lambda>r. battery_id r = b) df"
  have m: "mset ?x = mset ?y" using assms(2) by simp
  note g = guarded_cycles_permutation [OF assms(1) m assms(3)]
  have c: "calculate_cycles sort_values ?x = calculate_cycles sort_values ?y"
    using assms(1) m assms(3) by (rule calculate_cycles_permutation)
  show ?thesis
    unfolding battery_cycles_def Let_def g c ..
qed

lemma unique_permutation:
  assumes "mset xs = mset ys"
  shows "mset (unique xs) = mset (unique ys)"
proof -
  have "set (unique xs) = set (unique ys)" using mset_eq_setD [OF assms] by simp
  then show ?thesis
    using set_eq_iff_mset_eq_distinct [of "unique xs" "unique ys"] by simp
qed

lemma distinct_battery_ts:
  fixes xs :: "('b, 'z) stamped_scheme list"
  assumes "\<forall>b. distinct (map ts (filter (\<lambda>r. battery_id r = b) xs))"
  shows "distinct (map (\<lambda>r. (battery_id r, ts r)) xs)"
  using assms
proof (induction xs)
  case Nil
  show ?case by simp
next
  case (Cons x xs)
  have tail: "\<forall>b. distinct (map ts (filter (\<lambda>r. battery_id r = b) xs))"
  proof
    fix b
    from Cons.prems have "distinct (map ts (filter (\<lambda>r. battery_id r = b) (x # xs)))" by blast
    then show "distinct (map ts (filter (\<lambda>r. battery_id r = b) xs))" by (simp split: if_splits)
  qed
  have "(battery_id x, ts x) \<notin> set (map (\<lambda>r. (battery_id r, ts r)) xs)"
  proof
    assume "(battery_id x, ts x) \<in> set (map (\<lambda>r. (battery_id r, ts r)) xs)"
    then obtain y where y: "y \<in> set xs" "battery_id y = battery_id x" "ts y = ts x" by auto
    from Cons.prems have "distinct (map ts (filter (\<lambda>r. battery_id r = battery_id x) (x # xs)))"
      by blast
    then have "ts x \<notin> ts ` set (filter (\<lambda>r. battery_id r = battery_id x) xs)" by simp
    moreover from y have "y \<in> set (filter (\<lambda>r. battery_id r = battery_id x) xs)" by simp
    then have "ts y \<in> ts ` set (filter (\<lambda>r. battery_id r = battery_id x) xs)" by (rule imageI)
    ultimately show False using y(3) by simp
  qed
  with Cons.IH [OF tail] show ?case by simp
qed

lemma detect_anomalies_permutation:
  assumes "mset bf' = mset bf"
      and "\<forall>b. distinct (map ts (filter (\<lambda>r. battery_id r = b) bf'))"
  shows "detect_anomalies bf' = detect_anomalies bf"
proof -
  have "distinct (map (\<lambda>r. (battery_id r, ts r)) bf')"
    using assms(2) by (rule distinct_battery_ts)
  with assms(1) have "sort_key (\<lambda>r. (battery_id r, ts r)) bf' = sort_key (\<lambda>r. (battery_id r, ts r)) bf"
    by (rule sort_key_permutation)
  then show ?thesis by (simp add: detect_anomalies_def)
qed

section \<open>The example frames, evaluated\<close>

lemma sqrt_9: "sqrt 9 = 3"
  using real_sqrt_abs [of 3] by simp

lemmas anomaly_defs =
  detect_anomalies_def group_anomalies_def add_soc_drop_def nan_sub_def nan_mul_def nan_lt_def
  mean_def std_def Let_def

lemma two_buckets_anomalies:
  "detect_anomalies two_buckets =
     [(1, [\<lparr>battery_id = 1, ts = 0, odo = 120, soc = 80, soc_drop = None\<rparr>,
           \<lparr>battery_id = 1, ts = 7200000000000, odo = 131, soc = 60, soc_drop = Some (- 20)\<rparr>],
          [\<lparr>battery_id = 1, ts = 7200000000000, odo = 131, soc = 60, soc_drop = Some (- 20)\<rparr>])]"
  by (simp add: two_buckets_def anomaly_defs)

lemma steady_discharge_anomalies:
  "detect_anomalies steady_discharge =
     [(1, [\<lparr>battery_id = 1, ts = 0, odo = 0, soc = 60, soc_drop = None\<rparr>,
           \<lparr>battery_id = 1, ts = 7200000000000, odo = 9, soc = 40, soc_drop = Some (- 20)\<rparr>,
           \<lparr>battery_id = 1, ts = 14400000000000, odo = 18, soc = 20, soc_drop = Some (- 20)\<rparr>],
          [\<lparr>battery_id = 1, ts = 7200000000000, odo = 9, soc = 40, soc_drop = Some (- 20)\<rparr>,
           \<lparr>battery_id = 1, ts = 14400000000000, odo = 18, soc = 20, soc_drop = Some (- 20)\<rparr>])]"
  by (simp add: steady_discharge_def anomaly_defs)

lemma gentle_discharge_anomalies:
  "detect_anomalies gentle_discharge =
     [(4, [\<lparr>battery_id = 4, ts = 0, odo = 0, soc = 80, soc_drop = None\<rparr>,
           \<lparr>battery_id = 4, ts = 7200000000000, odo = 9, soc = 60, soc_drop = Some (- 20)\<rparr>],
          [\<lparr>battery_id = 4, ts = 7200000000000, odo = 9, soc = 60, soc_drop = Some (- 20)\<rparr>]),
      (8, [\<lparr>battery_id = 8, ts = 0, odo = 0, soc = 50, soc_drop = None\<rparr>,
           \<lparr>battery_id = 8, ts = 7200000000000, odo = 2, soc = 45, soc_drop = Some (- 5)\<rparr>,
           \<lparr>battery_id = 8, ts = 14400000000000, odo = 4, soc = 40, soc_drop = Some (- 5)\<rparr>],
          [])]"
  by (simp add: gentle_discharge_def anomaly_defs)

lemma bucket_log_anomalies:
  "detect_anomalies bucket_log =
     [(2, battery_2_rows,
          [\<lparr>battery_id = 2, ts = 7200000000000, odo = 14, soc = 45, soc_drop = Some (- 5)\<rparr>]),
      (5, [\<lparr>battery_id = 5, ts = 0, odo = 3, soc = 33, soc_drop = None\<rparr>], [])]"
  by (simp add: bucket_log_def battery_2_rows_def anomaly_defs sqrt_9)

lemma spec_example_anomalies:
  "detect_anomalies spec_example =
     [(1, [\<lparr>battery_id = 1, ts = 0, odo = 0, soc = 80, soc_drop = None\<rparr>,
           \<lparr>battery_id = 1, ts = 7200000000000, odo = 10, soc = 60, soc_drop = Some (- 20)\<rparr>,
           \<lparr>battery_id = 1, ts = 14400000000000, odo = 10, soc = 61, soc_drop = Some 1\<rparr>,
           \<lparr>battery_id = 1, ts = 21600000000000, odo = 20, soc = 40, soc_drop = Some (- 21)\<rparr>],
          [\<lparr>battery_id = 1, ts = 7200000000000, odo = 10, soc = 60, soc_drop = Some (- 20)\<rparr>,
           \<lparr>battery_id = 1, ts = 21600000000000, odo = 20, soc = 40, soc_drop = Some (- 21)\<rparr>])]"
proof -
  obtain s where s: "std [- 20, 1, - 21] = Some s" and s0: "0 \<le> s"
    by (simp add: std_def)
  have m: "mean [- 20, 1, - 21] = - 40 / 3" by (simp add: mean_def)
  have t: "\<not> 1 < - 40 / 3 - 3 / 2 * s" using s0 by simp
  show ?thesis
    using t by (simp add: spec_example_def detect_anomalies_def group_anomalies_def
      add_soc_drop_def nan_sub_def nan_mul_def nan_lt_def Let_def s m)
qed

lemma bucket_log_battery_2:
  "sort_key ts (filter (\<lambda>r. battery_id r = 2) bucket_log) =
     [\<lparr>battery_id = 2, ts = 0, odo = 0, soc = 50\<rparr>,
      \<lparr>battery_id = 2, ts = 7200000000000, odo = 14, soc = 45\<rparr>,
      \<lparr>battery_id = 2, ts = 14400000000000, odo = 14, soc = 48\<rparr>,
      \<lparr>battery_id = 2, ts = 21600000000000, odo = 14, soc = 49\<rparr>,
      \<lparr>battery_id = 2, ts = 28800000000000, odo = 14, soc = 50\<rparr>,
      \<lparr>battery_id = 2, ts = 36000000000000, odo = 14, soc = 50\<rparr>]"
  by (simp add: bucket_log_def)

lemma upt_1_6: "[1..<6] = [1, 2, 3, 4, 5::nat]"
  by (simp add: upt_rec)

section \<open>Claims about the cycle computation\<close>







text \<open>
  Claim C5. For every battery and every window whose restricted sub-sequence has fewer than
  two samples the reported count is 0; in particular all four counts of a battery with a
  single sample are 0. The computation has no failing branch: the result is a row.
\<close>

theorem short_window_has_zero_cycles:
  assumes "sorts_by_ts sort_values"
      and "row \<in> set (compute_all_cycles sort_values df)"
      and "bdf = filter (\<lambda>r. battery_id r = battery_id row) df"
  shows "(length (restricted (Some hours_24) bdf) < 2 \<longrightarrow> cycles_last_24h row = 0) \<and>
         (length (restricted (Some days_7) bdf) < 2 \<longrightarrow> cycles_last_7d row = 0) \<and>
         (length (restricted (Some days_30) bdf) < 2 \<longrightarrow> cycles_last_30d row = 0) \<and>
         (length (restricted None bdf) < 2 \<longrightarrow> total_cycles row = 0) \<and>
         (length bdf < 2 \<longrightarrow>
            cycles_last_24h row = 0 \<and> cycles_last_7d row = 0 \<and>
            cycles_last_30d row = 0 \<and> total_cycles row = 0)"
proof -
  from assms(2,3) have ne: "bdf \<noteq> []"
    and row: "row = battery_cycles sort_values df (battery_id row)"
    using compute_all_cycles_row [of row sort_values df] by simp_all
  have win: "length (window w bdf) \<le> length bdf" for w
    by (simp add: window_def)
  have z: "np_round3 (float64 (discharge (map battery_soc_pct (sort_values xs)) / 100)) = 0"
    if "length xs < 2" for xs
  proof -
    from that have "length (map battery_soc_pct (sort_values xs)) < 2"
      by (simp add: sorts_by_ts_length [OF assms(1)])
    then have "discharge (map battery_soc_pct (sort_values xs)) = 0" by (rule discharge_short)
    then show ?thesis by simp
  qed
  have a: "length (window hours_24 bdf) < 2 \<Longrightarrow> cycles_last_24h row = 0"
    by (subst row) (simp add: battery_cycles_fields [OF assms(1)] z assms(3) [symmetric])
  have b: "length (window days_7 bdf) < 2 \<Longrightarrow> cycles_last_7d row = 0"
    by (subst row) (simp add: battery_cycles_fields [OF assms(1)] z assms(3) [symmetric])
  have c: "length (window days_30 bdf) < 2 \<Longrightarrow> cycles_last_30d row = 0"
    by (subst row) (simp add: battery_cycles_fields [OF assms(1)] z assms(3) [symmetric])
  have d: "length bdf < 2 \<Longrightarrow> total_cycles row = 0"
    by (subst row) (simp add: battery_cycles_fields [OF assms(1)] z assms(3) [symmetric])
  have "length bdf < 2 \<Longrightarrow> length (window w bdf) < 2" for w
    using win [of w] by simp
  with a b c d show ?thesis
    by (simp add: restricted_window [OF ne] restricted_None)
qed

theorem short_window_witness:
  "battery_9_counts \<in> set (compute_all_cycles (sort_key ts) fleet_log) \<and>
   length (restricted (Some hours_24) (filter (\<lambda>r. battery_id r = 9) fleet_log)) = 1 \<and>
   cycles_last_24h battery_9_counts = 0 \<and>
   battery_3_counts \<in> set (compute_all_cycles (sort_key ts) fleet_log) \<and>
   length (filter (\<lambda>r. battery_id r = 3) fleet_log) = 1 \<and>
   total_cycles battery_3_counts = 0"
proof -
  have row9: "battery_9_counts \<in> set (compute_all_cycles (sort_key ts) fleet_log)"
    and row3: "battery_3_counts \<in> set (compute_all_cycles (sort_key ts) fleet_log)"
    by (simp_all add: fleet_log_cycles)
  have bdf9: "filter (\<lambda>r. battery_id r = 9) fleet_log
      = filter (\<lambda>r. battery_id r = battery_id battery_9_counts) fleet_log"
    and bdf3: "filter (\<lambda>r. battery_id r = 3) fleet_log
      = filter (\<lambda>r. battery_id r = battery_id battery_3_counts) fleet_log"
    by (simp_all add: battery_9_counts_def battery_3_counts_def)
  have len9: "length (restricted (Some hours_24) (filter (\<lambda>r. battery_id r = 9) fleet_log)) = 1"
    by (simp add: fleet_log_battery_9 restricted_def hours_24_def)
  have len3: "length (filter (\<lambda>r. battery_id r = 3) fleet_log) = 1"
    by (simp add: fleet_log_battery_3)
  from short_window_has_zero_cycles [OF sorts_by_ts_sort_key row9 bdf9]
       short_window_has_zero_cycles [OF sorts_by_ts_sort_key row3 bdf3]
    row9 row3 len9 len3
  show ?thesis by simp
qed

section \<open>Claims about the anomaly detection\<close>

text \<open>
  Claim C1, as stated: the SOC drop of bucket \<open>i \<ge> 1\<close> is the previous SOC minus the current
  one. On \<open>two_buckets\<close>, where the SOC falls from 80 to 60, the column \<open>soc_drop\<close> of the
  second bucket holds \<open>-20\<close>, not \<open>80 - 60\<close>.
\<close>

theorem soc_drop_sign_counterexample:
  "soc_drop (fst (snd (hd (detect_anomalies two_buckets))) ! 1) = Some (- 20) \<and>
   soc_drop (fst (snd (hd (detect_anomalies two_buckets))) ! 1)
     \<noteq> Some (soc (two_buckets ! 0) - soc (two_buckets ! 1))"
  by (simp add: two_buckets_anomalies) (simp add: two_buckets_def)

text \<open>
  Claim C1, amended: \<open>diff()\<close> takes the current SOC minus the previous one. For every battery
  and every bucket \<open>i \<ge> 1\<close> of its timestamp-sorted series,
  \<open>soc_drop[i] = soc[i] - soc[i-1]\<close>; a negative \<open>soc_drop\<close> is a discharge and a positive one
  a charge increase.
\<close>

theorem soc_drop_is_current_minus_previous:
  assumes "(b, g, a) \<in> set (detect_anomalies df)"
      and "series = sort_key ts (filter (\<lambda>r. battery_id r = b) df)"
      and "1 \<le> i" and "i < length series"
  shows "length g = length series \<and>
         soc_drop (g ! i) = Some (soc (series ! i) - soc (series ! (i - 1)))"
proof -
  from assms(1) have g: "g = group_rows df b" by (rule detect_anomalies_entry)
  then have len: "length g = length series"
    by (simp add: length_group_rows assms(2))
  have "soc_drop (g ! i) = map soc_drop g ! i"
    using len assms(4) by simp
  also have "\<dots> = diff_from None (map soc series) ! i"
    by (simp only: g soc_drop_group_rows assms(2))
  also have "\<dots> = Some (map soc series ! i - map soc series ! (i - 1))"
    using assms(3,4) by (simp add: diff_from_nth)
  also have "\<dots> = Some (soc (series ! i) - soc (series ! (i - 1)))"
    using assms(3,4) by simp
  finally show ?thesis using len by simp
qed

theorem soc_drop_witness:
  "(2, battery_2_rows,
      [\<lparr>battery_id = 2, ts = 7200000000000, odo = 14, soc = 45, soc_drop = Some (- 5)\<rparr>])
     \<in> set (detect_anomalies bucket_log) \<and>
   (1::nat) \<le> 2 \<and> 2 < length (sort_key ts (filter (\<lambda>r. battery_id r = 2) bucket_log)) \<and>
   length battery_2_rows = 6 \<and>
   soc_drop (battery_2_rows ! 2) = Some (48 - 45)"
proof -
  let ?a = "[\<lparr>battery_id = 2::nat, ts = 7200000000000, odo = 14, soc = 45, soc_drop = Some (- 5)\<rparr>]"
  have e: "(2, battery_2_rows, ?a) \<in> set (detect_anomalies bucket_log)"
    by (simp add: bucket_log_anomalies)
  have s: "sort_key ts (filter (\<lambda>r. battery_id r = 2) bucket_log) =
     [\<lparr>battery_id = 2, ts = 0, odo = 0, soc = 50\<rparr>,
      \<lparr>battery_id = 2, ts = 7200000000000, odo = 14, soc = 45\<rparr>,
      \<lparr>battery_id = 2, ts = 14400000000000, odo = 14, soc = 48\<rparr>,
      \<lparr>battery_id = 2, ts = 21600000000000, odo = 14, soc = 49\<rparr>,
      \<lparr>battery_id = 2, ts = 28800000000000, odo = 14, soc = 50\<rparr>,
      \<lparr>battery_id = 2, ts = 36000000000000, odo = 14, soc = 50\<rparr>]"
    by (simp add: bucket_log_def)
  have i: "(1::nat) \<le> 2" "2 < length (sort_key ts (filter (\<lambda>r. battery_id r = 2) bucket_log))"
    by (simp_all add: s)
  from soc_drop_is_current_minus_previous [OF e refl i] e i show ?thesis
    by (simp add: s)
qed







text \<open>
  Claim C7. An entry of the result has as many rows as the battery has buckets; it has no
  defined drop exactly when it has at most one row, and then its anomaly subset is empty.
  The computation has no failing branch.
\<close>

theorem no_drop_no_anomaly:
  assumes "(b, g, a) \<in> set (detect_anomalies df)"
  shows "length g = length (filter (\<lambda>r. battery_id r = b) df) \<and>
         (dropna (map soc_drop g) = [] \<longleftrightarrow> length g \<le> 1) \<and>
         (dropna (map soc_drop g) = [] \<longrightarrow> a = [])"
proof -
  from assms have g: "g = group_rows df b" and a: "a = snd (snd (group_anomalies b g))"
    by (rule detect_anomalies_entry)+
  have "length (dropna (map soc_drop g)) = length g - 1"
    by (simp add: g soc_drop_group_rows dropna_diff_from_None length_group_rows)
  then have "dropna (map soc_drop g) = [] \<longleftrightarrow> length g \<le> 1"
    by (metis length_0_conv diff_is_0_eq)
  moreover have "dropna (map soc_drop g) = [] \<longrightarrow> a = []"
    by (simp add: a group_anomalies_flagged)
  moreover have "length g = length (filter (\<lambda>r. battery_id r = b) df)"
    by (simp add: g length_group_rows)
  ultimately show ?thesis by simp
qed

theorem no_drop_no_anomaly_witness:
  "(5, [\<lparr>battery_id = 5, ts = 0, odo = 3, soc = 33, soc_drop = None\<rparr>], [])
     \<in> set (detect_anomalies bucket_log) \<and>
   length (filter (\<lambda>r. battery_id r = 5) bucket_log) = 1 \<and>
   dropna (map soc_drop [\<lparr>battery_id = 5::nat, ts = 0, odo = 3, soc = 33, soc_drop = None\<rparr>]) = []"
proof -
  have e: "(5, [\<lparr>battery_id = 5, ts = 0, odo = 3, soc = 33, soc_drop = None\<rparr>], [])
     \<in> set (detect_anomalies bucket_log)"
    by (simp add: bucket_log_anomalies)
  from no_drop_no_anomaly [OF e] e show ?thesis by simp
qed

text \<open>
  Claim C10. The result of \<open>detect_anomalies\<close> has exactly one entry for each battery
  identifier of the input; the entry of battery \<open>b\<close> carries all buckets of \<open>b\<close> in timestamp
  order (with the added column) and an anomaly subset that is a subsequence of these rows.
\<close>

theorem one_entry_per_battery:
  "distinct (map fst (detect_anomalies df)) \<and>
   fst ` set (detect_anomalies df) = battery_id ` set df \<and>
   (\<forall>(b, g, a) \<in> set (detect_anomalies df).
      map bucket.truncate g = sort_key ts (filter (\<lambda>r. battery_id r = b) df) \<and>
      subseq a g)"
proof -
  have "map fst (detect_anomalies df) = sort (remdups (map battery_id df))"
    by (simp add: detect_anomalies_groups group_anomalies_fst comp_def)
  then have "distinct (map fst (detect_anomalies df))"
    and "fst ` set (detect_anomalies df) = battery_id ` set df"
    by (simp_all flip: set_map)
  moreover have "map bucket.truncate g = sort_key ts (filter (\<lambda>r. battery_id r = b) df) \<and>
      subseq a g" if "(b, g, a) \<in> set (detect_anomalies df)" for b g a
  proof -
    from that have g: "g = group_rows df b" and a: "a = snd (snd (group_anomalies b g))"
      by (rule detect_anomalies_entry)+
    have "subseq a g" by (simp add: a group_anomalies_flagged)
    with g show ?thesis by (simp add: truncate_group_rows)
  qed
  ultimately show ?thesis by auto
qed

theorem one_entry_per_battery_witness:
  "map fst (detect_anomalies bucket_log) = [2, 5] \<and>
   battery_id ` set bucket_log = {2, 5} \<and>
   map bucket.truncate battery_2_rows = sort_key ts (filter (\<lambda>r. battery_id r = 2) bucket_log) \<and>
   subseq [\<lparr>battery_id = 2, ts = 7200000000000, odo = 14, soc = 45, soc_drop = Some (- 5)\<rparr>]
     battery_2_rows"
proof -
  have "(2, battery_2_rows,
      [\<lparr>battery_id = 2, ts = 7200000000000, odo = 14, soc = 45, soc_drop = Some (- 5)\<rparr>])
     \<in> set (detect_anomalies bucket_log)"
    by (simp add: bucket_log_anomalies)
  moreover have "map fst (detect_anomalies bucket_log) = [2, 5]"
    by (simp add: bucket_log_anomalies)
  ultimately show ?thesis
    using one_entry_per_battery [of bucket_log] by fastforce
qed

section \<open>A claim about both computations\<close>

text \<open>
  Claim C9. If the timestamps of every battery are pairwise distinct, reordering the rows of
  the input changes neither \<open>calculate_cycles\<close> on the rows of a battery, nor the rows of
  \<open>compute_all_cycles\<close> (which come in the order in which the batteries first appear, hence
  the comparison as multisets), nor the result of \<open>detect_anomalies\<close>, whatever the order in
  which \<open>sort_values\<close> would return equal timestamps.
\<close>

theorem row_order_does_not_matter:
  assumes "sorts_by_ts sort_values"
      and "mset df' = mset df"
      and "\<forall>b. distinct (map ts (filter (\<lambda>r. battery_id r = b) df))"
      and "mset bf' = mset bf"
      and "\<forall>b. distinct (map ts (filter (\<lambda>r. battery_id r = b) bf))"
  shows "(\<forall>b. calculate_cycles sort_values (filter (\<lambda>r. battery_id r = b) df')
              = calculate_cycles sort_values (filter (\<lambda>r. battery_id r = b) df)) \<and>
         mset (compute_all_cycles sort_values df') = mset (compute_all_cycles sort_values df) \<and>
         detect_anomalies bf' = detect_anomalies bf"
proof -
  have d: "distinct (map ts (filter (\<lambda>r. battery_id r = b) df'))" for b
  proof -
    have "mset (map ts (filter (\<lambda>r. battery_id r = b) df'))
        = mset (map ts (filter (\<lambda>r. battery_id r = b) df))"
      using assms(2) by simp
    then show ?thesis using assms(3) by (metis mset_eq_imp_distinct_iff)
  qed
  have "calculate_cycles sort_values (filter (\<lambda>r. battery_id r = b) df')
      = calculate_cycles sort_values (filter (\<lambda>r. battery_id r = b) df)" for b
    using assms(1,2) d [of b] by (intro calculate_cycles_permutation) simp_all
  moreover have "mset (compute_all_cycles sort_values df') = mset (compute_all_cycles sort_values df)"
  proof -
    have "battery_cycles sort_values df' = battery_cycles sort_values df"
      using assms(1,2) d by (intro ext battery_cycles_permutation)
    moreover have "mset (unique (map battery_id df')) = mset (unique (map battery_id df))"
      using assms(2) by (intro unique_permutation) (metis mset_map)
    ultimately show ?thesis
      unfolding compute_all_cycles_def by (metis mset_map)
  qed
  moreover have "detect_anomalies bf' = detect_anomalies bf"
  proof -
    have "distinct (map ts (filter (\<lambda>r. battery_id r = b) bf'))" for b
    proof -
      have "mset (map ts (filter (\<lambda>r. battery_id r = b) bf'))
          = mset (map ts (filter (\<lambda>r. battery_id r = b) bf))"
        using assms(4) by simp
      then show ?thesis using assms(5) by (metis mset_eq_imp_distinct_iff)
    qed
    with assms(4) show ?thesis by (intro detect_anomalies_permutation) simp_all
  qed
  ultimately show ?thesis by simp
qed

theorem row_order_witness:
  "mset (rev fleet_log) = mset fleet_log \<and>
   (\<forall>b. distinct (map ts (filter (\<lambda>r. battery_id r = b) fleet_log))) \<and>
   mset (rev bucket_log) = mset bucket_log \<and>
   (\<forall>b. distinct (map ts (filter (\<lambda>r. battery_id r = b) bucket_log))) \<and>
   mset (compute_all_cycles (sort_key ts) (rev fleet_log))
     = mset (compute_all_cycles (sort_key ts) fleet_log) \<and>
   detect_anomalies (rev bucket_log) = detect_anomalies bucket_log"
proof -
  have h: "mset (rev fleet_log) = mset fleet_log" "mset (rev bucket_log) = mset bucket_log"
    by simp_all
  have d: "\<forall>b. distinct (map ts (filter (\<lambda>r. battery_id r = b) fleet_log))"
    by (simp add: fleet_log_def)
  have d': "\<forall>b. distinct (map ts (filter (\<lambda>r. battery_id r = b) bucket_log))"
    by (simp add: bucket_log_def)
  from row_order_does_not_matter [OF sorts_by_ts_sort_key h(1) d h(2) d'] h d d'
  show ?thesis by simp
qed

end
